theory Spec2Isabelle
  imports Complex_Main
begin

section \<open>Common data\<close>

text \<open>
  The scalar type \<open>T\<close> of the solvers is modelled by \<^typ>\<open>real\<close>, the index types
  (\<open>size_t\<close>, \<open>I\<close>) by \<^typ>\<open>nat\<close>. Exceptions are values of \<open>error\<close>; a function that can
  throw returns \<open>error + 'a\<close>. \<open>OutOfRange\<close> is no exception: it marks a run that accesses a
  \<open>std::vector\<close> past its end through the unchecked \<open>operator[]\<close>, where the source has undefined
  behaviour and returns nothing that could be relied on.
\<close>

datatype error =
    InvalidArgument    \<comment> \<open>\<open>std::invalid_argument\<close>\<close>
  | LogicError         \<comment> \<open>\<open>std::logic_error\<close>\<close>
  | DomainError        \<comment> \<open>\<open>std::domain_error\<close>\<close>
  | OutOfRange         \<comment> \<open>undefined behaviour: an access past the end of a vector\<close>

section \<open>\<open>finite_element_solver_base\<close>: the mesh proxy held by a 2D solver\<close>

text \<open>
  \<open>std::shared_ptr<mesh_proxy>\<close> is an optional reference: \<open>None\<close> is \<open>nullptr\<close>.
  A member function that throws leaves the object as it was at the throw, so \<open>set_mesh\<close>
  returns the outcome together with the object after the call.
\<close>

record 'p finite_element_solver_base =
  mesh_proxy :: "'p option"

definition set_mesh ::
  "'p option \<Rightarrow> 'p finite_element_solver_base \<Rightarrow> (error + unit) \<times> 'p finite_element_solver_base" where
  "set_mesh mp s =
     (if mp = None then (Inl InvalidArgument, s)
      else (Inr (), s\<lparr>mesh_proxy := mp\<rparr>))"

text \<open>The constructor: the member starts as a null pointer and the body calls \<open>set_mesh\<close>;
  when that throws no object is constructed.\<close>

definition new_finite_element_solver_base ::
  "'p option \<Rightarrow> error + 'p finite_element_solver_base" where
  "new_finite_element_solver_base mp =
     (case set_mesh mp \<lparr>mesh_proxy = None\<rparr> of
        (Inl e, _) \<Rightarrow> Inl e
      | (Inr _, s) \<Rightarrow> Inr s)"

text \<open>Any later sequence of \<open>set_mesh\<close> calls on a solver (a thrown exception is caught by the
  caller and the object stays in use).\<close>

fun set_mesh_all :: "'p option list \<Rightarrow> 'p finite_element_solver_base \<Rightarrow> 'p finite_element_solver_base" where
  "set_mesh_all [] s = s"
| "set_mesh_all (mp # mps) s = set_mesh_all mps (snd (set_mesh mp s))"

section \<open>\<open>indexator\<close>: the symbolic and numeric indexing passes\<close>

datatype index_stage = SHIFTS | NONZERO

datatype theory_t = LOCAL | NONLOCAL   \<comment> \<open>the enum \<open>theory\<close> of the source\<close>

text \<open>The three arrays of a row-major \<open>Eigen::SparseMatrix\<close> in compressed form.\<close>

record sparse_matrix =
  outerIndexPtr :: "nat list"
  innerIndexPtr :: "nat list"
  valuePtr :: "real list"

definition rows :: "sparse_matrix \<Rightarrow> nat" where
  "rows K = length (outerIndexPtr K) - 1"

text \<open>The indexator with its constant members (\<open>DoF\<close> is the template parameter).\<close>

record indexator =
  DoF :: nat
  inner_nodes :: "bool list"
  node_shift :: nat
  K_inner :: sparse_matrix
  K_bound :: sparse_matrix
  inner_flags :: "bool list list"      \<comment> \<open>\<open>_inner\<close>\<close>
  bound_flags :: "bool list list"      \<comment> \<open>\<open>_bound\<close>\<close>
  inner_index :: "nat list"            \<comment> \<open>\<open>_inner_index\<close>\<close>
  bound_index :: "nat list"            \<comment> \<open>\<open>_bound_index\<close>\<close>

definition new_indexator ::
  "nat \<Rightarrow> sparse_matrix \<Rightarrow> sparse_matrix \<Rightarrow> bool list \<Rightarrow> nat \<Rightarrow> indexator" where
  "new_indexator dof Ki Kb inodes shift =
     \<lparr>DoF = dof, inner_nodes = inodes, node_shift = shift, K_inner = Ki, K_bound = Kb,
      inner_flags = replicate dof (replicate (length inodes) False),
      bound_flags = replicate dof (replicate (length inodes) False),
      inner_index = replicate dof 0, bound_index = replicate dof 0\<rparr>"

text \<open>\<open>std::fill(std::next(v.begin(), k), v.end(), false)\<close>\<close>

definition fill_from :: "nat \<Rightarrow> bool list \<Rightarrow> bool list" where
  "fill_from k v = take k v @ replicate (length v - k) False"

definition fill_component :: "nat \<Rightarrow> nat \<Rightarrow> indexator \<Rightarrow> indexator" where
  "fill_component node i ind =
     ind\<lparr>inner_index := (inner_index ind)
            [i := outerIndexPtr (K_inner ind) ! (DoF ind * (node - node_shift ind) + i)],
         bound_index := (bound_index ind)
            [i := outerIndexPtr (K_bound ind) ! (DoF ind * (node - node_shift ind) + i)],
         bound_flags := (bound_flags ind)[i := fill_from 0 (bound_flags ind ! i)],
         inner_flags := (inner_flags ind)[i := fill_from (DoF ind * node) (inner_flags ind ! i)]\<rparr>"

definition fill :: "nat \<Rightarrow> indexator \<Rightarrow> indexator" where
  "fill node ind = fold (fill_component node) [0..<DoF ind] ind"

text \<open>\<open>stage\<close> works on one matrix with its flags and write cursors, passed by reference.\<close>

definition stage ::
  "nat \<Rightarrow> nat \<Rightarrow> index_stage \<Rightarrow> sparse_matrix \<times> bool list list \<times> nat list \<Rightarrow> nat \<Rightarrow> nat
     \<Rightarrow> sparse_matrix \<times> bool list list \<times> nat list" where
  "stage dof shift Stage s row col =
     (case s of (K, flags, idx) \<Rightarrow>
        let i = row mod dof in
        if \<not> flags ! i ! col then
          (case Stage of
             SHIFTS \<Rightarrow>
               (K\<lparr>outerIndexPtr := (outerIndexPtr K)
                     [row - dof * shift + 1 := outerIndexPtr K ! (row - dof * shift + 1) + 1]\<rparr>,
                flags[i := (flags ! i)[col := True]], idx)
           | NONZERO \<Rightarrow>
               (K\<lparr>valuePtr := (valuePtr K)[idx ! i := 0],
                  innerIndexPtr := (innerIndexPtr K)[idx ! i := col]\<rparr>,
                flags[i := (flags ! i)[col := True]], idx[i := idx ! i + 1]))
        else s)"

definition stage_inner :: "index_stage \<Rightarrow> indexator \<Rightarrow> nat \<Rightarrow> nat \<Rightarrow> indexator" where
  "stage_inner Stage ind row col =
     (case stage (DoF ind) (node_shift ind) Stage (K_inner ind, inner_flags ind, inner_index ind) row col of
        (K, flags, idx) \<Rightarrow> ind\<lparr>K_inner := K, inner_flags := flags, inner_index := idx\<rparr>)"

definition stage_bound :: "index_stage \<Rightarrow> indexator \<Rightarrow> nat \<Rightarrow> nat \<Rightarrow> indexator" where
  "stage_bound Stage ind row col =
     (case stage (DoF ind) (node_shift ind) Stage (K_bound ind, bound_flags ind, bound_index ind) row col of
        (K, flags, idx) \<Rightarrow> ind\<lparr>K_bound := K, bound_flags := flags, bound_index := idx\<rparr>)"

text \<open>The body of the two nested component loops of \<open>index\<close>.\<close>

definition index_pair :: "index_stage \<Rightarrow> nat \<Rightarrow> nat \<Rightarrow> indexator \<Rightarrow> indexator" where
  "index_pair Stage row col ind =
     (if inner_nodes ind ! row \<and> inner_nodes ind ! col then
        (if row \<le> col then stage_inner Stage ind row col else ind)
      else if row \<noteq> col then
        (if \<not> inner_nodes ind ! col then stage_bound Stage ind row col else ind)
      else stage_inner Stage ind row col)"

definition index :: "index_stage \<Rightarrow> nat \<Rightarrow> nat \<Rightarrow> indexator \<Rightarrow> indexator" where
  "index Stage block_row block_col ind =
     fold (\<lambda>comp_row.
       fold (\<lambda>comp_col.
         index_pair Stage (DoF ind * block_row + comp_row) (DoF ind * block_col + comp_col))
         [0..<DoF ind])
       [0..<DoF ind] ind"

section \<open>Reference elements\<close>

text \<open>
  The interface \<open>element_integrate_base\<close>: the node count of the element, the node count of
  its quadrature and the tables at the quadrature nodes. The two counts are independent
  (\<open>qnodes_count\<close> is the size of the weight table built from the quadrature handed to \<open>set\<close>).
\<close>

record element =
  nodes_count :: nat
  qnodes_count :: nat
  weight :: "nat \<Rightarrow> real"
  qN :: "nat \<Rightarrow> nat \<Rightarrow> real"
  qNxi :: "nat \<Rightarrow> nat \<Rightarrow> real"
  qNeta :: "nat \<Rightarrow> nat \<Rightarrow> real"

section \<open>\<open>finite_element_solver_base_1d\<close>\<close>

datatype boundary_condition_t = FIRST_KIND | SECOND_KIND

record equation_parameters =
  lambda :: real
  rho :: real
  c :: real
  p1 :: real
  r :: real

text \<open>
  The class \<open>mesh_1d\<close> is used through its interface only; its members are the fields of
  this record (\<open>element_1d\<close> is \<open>mesh()->element()\<close>). \<open>node_elements\<close> gives the array \<open>arr\<close>
  of pairs (element, local index) of a node; a pair whose element is
  \<open>std::numeric_limits<size_t>::max()\<close>, the mark of an absent element that the loops test
  for, is \<open>None\<close>.
\<close>

record mesh_1d =
  element_1d :: element
  nodes_count_1d :: nat
  elements_count_1d :: nat
  jacobian_1d :: real
  node_number_1d :: "nat \<Rightarrow> nat \<Rightarrow> nat"
  node_elements :: "nat \<Rightarrow> (nat \<times> nat) option list"
  left_neighbour :: "nat \<Rightarrow> nat"
  right_neighbour :: "nat \<Rightarrow> nat"
  quad_coord_1d :: "nat \<Rightarrow> nat \<Rightarrow> real"

type_synonym stationary_boundary =
  "(boundary_condition_t \<times> real) \<times> (boundary_condition_t \<times> real)"

definition prepare_memory :: "sparse_matrix \<Rightarrow> sparse_matrix" where
  \<comment> \<open>the running sum over \<open>outerIndexPtr\<close>, then \<open>data().resize\<close>; fresh cells are shown as 0\<close>
  "prepare_memory K =
     (let outer = fold (\<lambda>i out. out[i + 1 := out ! (i + 1) + out ! i]) [0..<rows K] (outerIndexPtr K);
          n = outer ! rows K
      in K\<lparr>outerIndexPtr := outer,
           innerIndexPtr := take n (innerIndexPtr K) @ replicate (n - length (innerIndexPtr K)) 0,
           valuePtr := take n (valuePtr K) @ replicate (n - length (valuePtr K)) 0\<rparr>)"

definition integrate_basic :: "mesh_1d \<Rightarrow> nat \<Rightarrow> nat \<Rightarrow> real" where
  "integrate_basic m e i =
     (let el = element_1d m in
      fold (\<lambda>q integral. integral + weight el q * qN el i q) [0..<qnodes_count el] 0
        * jacobian_1d m)"

definition integrate_basic_pair :: "mesh_1d \<Rightarrow> nat \<Rightarrow> nat \<Rightarrow> nat \<Rightarrow> real" where
  "integrate_basic_pair m e i j =
     (let el = element_1d m in
      fold (\<lambda>q integral. integral + weight el q * qN el i q * qN el j q) [0..<nodes_count el] 0
        * jacobian_1d m)"

definition integrate_loc :: "mesh_1d \<Rightarrow> nat \<Rightarrow> nat \<Rightarrow> nat \<Rightarrow> real" where
  "integrate_loc m e i j =
     (let el = element_1d m in
      fold (\<lambda>q integral. integral + weight el q * qNxi el i q * qNxi el j q) [0..<qnodes_count el] 0
        / jacobian_1d m)"

definition integrate_nonloc ::
  "mesh_1d \<Rightarrow> nat \<Rightarrow> nat \<Rightarrow> nat \<Rightarrow> nat \<Rightarrow> (real \<Rightarrow> real \<Rightarrow> real) \<Rightarrow> real" where
  "integrate_nonloc m eL eNL iL jNL influence_function =
     (let el = element_1d m in
      fold (\<lambda>qL integral.
        let qcoordL = quad_coord_1d m eL qL;
            inner_integral =
              fold (\<lambda>qNL inner_integral.
                inner_integral
                  + weight el qNL * influence_function qcoordL (quad_coord_1d m eNL qNL) * qNxi el jNL qNL)
                [0..<qnodes_count el] 0
        in integral + weight el qL * qNxi el iL qL * inner_integral)
        [0..<qnodes_count el] 0)"

text \<open>
  \<open>mesh_run\<close>: the callback is a state transformer on the captured matrix. The node loop is
  an OpenMP loop in the source; each row is written by one iteration only and the model runs them
  in index order.
\<close>

definition mesh_run_LOCAL :: "mesh_1d \<Rightarrow> (nat \<Rightarrow> nat \<Rightarrow> nat \<Rightarrow> 's \<Rightarrow> 's) \<Rightarrow> 's \<Rightarrow> 's" where
  "mesh_run_LOCAL m callback =
     fold (\<lambda>node.
       fold (\<lambda>entry s.
         case entry of
           Some (eL, iL) \<Rightarrow> fold (\<lambda>jL. callback eL iL jL) [0..<nodes_count (element_1d m)] s
         | None \<Rightarrow> s)
         (node_elements m node))
       [0..<nodes_count_1d m]"

definition mesh_run_NONLOCAL :: "mesh_1d \<Rightarrow> (nat \<Rightarrow> nat \<Rightarrow> nat \<Rightarrow> nat \<Rightarrow> 's \<Rightarrow> 's) \<Rightarrow> 's \<Rightarrow> 's" where
  "mesh_run_NONLOCAL m callback =
     fold (\<lambda>node.
       fold (\<lambda>entry s.
         case entry of
           Some (eL, iL) \<Rightarrow>
             fold (\<lambda>eNL.
               fold (\<lambda>jNL. callback eL eNL iL jNL) [0..<nodes_count (element_1d m)])
               [left_neighbour m eL..<right_neighbour m eL] s
         | None \<Rightarrow> s)
         (node_elements m node))
       [0..<nodes_count_1d m]"

definition bool_to_nat :: "bool \<Rightarrow> nat" where
  "bool_to_nat b = (if b then 1 else 0)"

text \<open>
  \<open>create_matrix_portrait\<close>. The index arithmetic is \<open>size_t\<close> arithmetic; on a mesh with
  \<open>e < right_neighbour e\<close> and \<open>i < nodes_count\<close> no intermediate value is negative, and the
  model uses natural numbers.
\<close>

definition portrait_counts :: "mesh_1d \<Rightarrow> bool \<times> bool \<Rightarrow> bool \<Rightarrow> nat list \<Rightarrow> nat list" where
  "portrait_counts m boundary_first_kind nonlocal_task =
     fold (\<lambda>e.
       let right_neighbour = (if nonlocal_task then right_neighbour m e else e + 1) in
       fold (\<lambda>i out.
         let row = e * (nodes_count (element_1d m) - 1) + i + 1 in
         if fst boundary_first_kind \<and> row = 1 \<or> snd boundary_first_kind \<and> row = nodes_count_1d m
         then out[row := 1]
         else
           let last_node_first_kind =
                 (snd boundary_first_kind \<and>
                  right_neighbour * (nodes_count (element_1d m) - 1) = nodes_count_1d m - 1)
           in out[row := (right_neighbour - e) * (nodes_count (element_1d m) - 1) - i + 1
                           - bool_to_nat last_node_first_kind])
         [0..<nodes_count (element_1d m)])
       [0..<elements_count_1d m]"

definition create_matrix_portrait ::
  "mesh_1d \<Rightarrow> sparse_matrix \<Rightarrow> bool \<Rightarrow> bool \<times> bool \<Rightarrow> bool \<Rightarrow> sparse_matrix" where
  "create_matrix_portrait m K neumann_task boundary_first_kind nonlocal_task =
     (let K1 = K\<lparr>outerIndexPtr :=
                   portrait_counts m boundary_first_kind nonlocal_task (outerIndexPtr K)\<rparr>;
          K2 = (if neumann_task
                then K1\<lparr>outerIndexPtr :=
                          fold (\<lambda>row out. out[row + 1 := out ! (row + 1) + 1]) [0..<rows K1]
                            (outerIndexPtr K1)\<rparr>
                else K1);
          K3 = prepare_memory K2;
          K4 = (if neumann_task
                then K3\<lparr>innerIndexPtr :=
                          fold (\<lambda>row inn. inn[outerIndexPtr K3 ! (row + 1) - 1 := nodes_count_1d m])
                            [0..<rows K3] (innerIndexPtr K3)\<rparr>
                else K3)
      in fold (\<lambda>i.
           fold (\<lambda>j Kc.
             let k = i + (j - outerIndexPtr K4 ! i);
                 Kd = (if j < outerIndexPtr K4 ! (i + 1) - bool_to_nat neumann_task
                       then Kc\<lparr>innerIndexPtr := (innerIndexPtr Kc)[j := k]\<rparr> else Kc)
             in Kd\<lparr>valuePtr := (valuePtr Kd)[j := 0]\<rparr>)
             [outerIndexPtr K4 ! i..<outerIndexPtr K4 ! (i + 1)])
           [0..<rows K4] K4)"

text \<open>
  \<open>Eigen::SparseMatrix::coeffRef(row, col)\<close> (library code): a reference to the stored
  coefficient of the row with this column, found by a search over the sorted row; when the row
  stores none, a zero coefficient is inserted at its place in the row. The model returns the
  position of the coefficient in \<open>valuePtr\<close> and the matrix that stores it.
\<close>

definition coeffRef :: "sparse_matrix \<Rightarrow> nat \<Rightarrow> nat \<Rightarrow> nat \<times> sparse_matrix" where
  "coeffRef K row col =
     (let start = outerIndexPtr K ! row;
          end = outerIndexPtr K ! (row + 1);
          p = start + length (takeWhile (\<lambda>k. k < col) (take (end - start) (drop start (innerIndexPtr K))))
      in if p < end \<and> innerIndexPtr K ! p = col then (p, K)
         else (p, K\<lparr>outerIndexPtr :=
                      map (\<lambda>k. if row < k then outerIndexPtr K ! k + 1 else outerIndexPtr K ! k)
                        [0..<length (outerIndexPtr K)],
                    innerIndexPtr := take p (innerIndexPtr K) @ col # drop p (innerIndexPtr K),
                    valuePtr := take p (valuePtr K) @ 0 # drop p (valuePtr K)\<rparr>))"

definition coeffRef_add :: "nat \<Rightarrow> nat \<Rightarrow> real \<Rightarrow> sparse_matrix \<Rightarrow> sparse_matrix" where
  \<comment> \<open>\<open>K.coeffRef(row, col) += v\<close>\<close>
  "coeffRef_add row col v K =
     (case coeffRef K row col of (p, K') \<Rightarrow> K'\<lparr>valuePtr := (valuePtr K')[p := valuePtr K' ! p + v]\<rparr>)"

text \<open>The read access \<open>K.coeff(row, col)\<close>: the stored coefficient, or 0 when none is stored.\<close>

definition coeff :: "sparse_matrix \<Rightarrow> nat \<Rightarrow> nat \<Rightarrow> real" where
  "coeff K row col =
     (let start = outerIndexPtr K ! row;
          end = outerIndexPtr K ! (row + 1);
          p = start + length (takeWhile (\<lambda>k. k \<noteq> col) (take (end - start) (drop start (innerIndexPtr K))))
      in if p < end then valuePtr K ! p else 0)"

text \<open>The columns stored in a row, in storage order.\<close>

definition row_columns :: "sparse_matrix \<Rightarrow> nat \<Rightarrow> nat list" where
  "row_columns K row =
     take (outerIndexPtr K ! (row + 1) - outerIndexPtr K ! row)
       (drop (outerIndexPtr K ! row) (innerIndexPtr K))"

text \<open>
  \<open>calc_matrix\<close>. \<open>K_bound\<close> and \<open>boundary_first_kind\<close> are captured by the callbacks of the
  source but never used by them (the code that used them is commented out), so only \<open>K_inner\<close>
  changes.
\<close>

definition calc_matrix ::
  "mesh_1d \<Rightarrow> sparse_matrix \<Rightarrow> bool \<Rightarrow> bool \<times> bool \<Rightarrow> (nat \<Rightarrow> nat \<Rightarrow> nat \<Rightarrow> real)
     \<Rightarrow> (nat \<Rightarrow> nat \<Rightarrow> nat \<Rightarrow> nat \<Rightarrow> (real \<Rightarrow> real \<Rightarrow> real) \<Rightarrow> real) \<Rightarrow> bool \<Rightarrow> (real \<Rightarrow> real \<Rightarrow> real)
     \<Rightarrow> sparse_matrix" where
  "calc_matrix m K neumann_task boundary_first_kind integrate_rule_loc integrate_rule_nonloc
       nonlocal_task influence_fun =
     (let K1 = (if neumann_task
                then fold (\<lambda>node Kc.
                       fold (\<lambda>entry Kd.
                         case entry of
                           Some (e, i) \<Rightarrow>
                             coeffRef_add node (nodes_count_1d m) (integrate_basic m e i) Kd
                         | None \<Rightarrow> Kd)
                         (node_elements m node) (snd (coeffRef Kc node (nodes_count_1d m))))
                       [0..<nodes_count_1d m] K
                else K);
          K2 = mesh_run_LOCAL m
                 (\<lambda>e i j Kc.
                    let row = node_number_1d m e i; col = node_number_1d m e j in
                    if row \<le> col then coeffRef_add row col (integrate_rule_loc e i j) Kc else Kc)
                 K1
      in if nonlocal_task
         then mesh_run_NONLOCAL m
                (\<lambda>eL eNL iL jNL Kc.
                   let row = node_number_1d m eL iL; col = node_number_1d m eNL jNL in
                   if row \<le> col
                   then coeffRef_add row col (integrate_rule_nonloc eL eNL iL jNL influence_fun) Kc
                   else Kc)
                K2
         else K2)"

definition create_matrix ::
  "mesh_1d \<Rightarrow> sparse_matrix \<Rightarrow> bool \<Rightarrow> stationary_boundary \<Rightarrow> (nat \<Rightarrow> nat \<Rightarrow> nat \<Rightarrow> real)
     \<Rightarrow> (nat \<Rightarrow> nat \<Rightarrow> nat \<Rightarrow> nat \<Rightarrow> (real \<Rightarrow> real \<Rightarrow> real) \<Rightarrow> real) \<Rightarrow> bool \<Rightarrow> (real \<Rightarrow> real \<Rightarrow> real)
     \<Rightarrow> sparse_matrix" where
  "create_matrix m K neumann_task bound_cond integrate_rule_loc integrate_rule_nonloc
       nonlocal_task influence_fun =
     (let boundary_first_kind =
            (fst (fst bound_cond) = FIRST_KIND, fst (snd bound_cond) = FIRST_KIND)
      in calc_matrix m (create_matrix_portrait m K neumann_task boundary_first_kind nonlocal_task)
           neumann_task boundary_first_kind integrate_rule_loc integrate_rule_nonloc
           nonlocal_task influence_fun)"

definition boundary_condition_first_kind_1d ::
  "mesh_1d \<Rightarrow> real list \<Rightarrow> stationary_boundary \<Rightarrow> (nat \<times> real) list \<times> (nat \<times> real) list \<Rightarrow> real list" where
  "boundary_condition_first_kind_1d m f bound_cond K_bound_1d =
     (let step = (\<lambda>(bc, Kb, pos) f.
            if fst bc = FIRST_KIND
            then (fold (\<lambda>(i, val) f. f[i := f ! i + val * snd bc]) Kb f)[pos := snd bc]
            else f)
      in step (snd bound_cond, snd K_bound_1d, nodes_count_1d m - 1)
           (step (fst bound_cond, fst K_bound_1d, 0) f))"

definition boundary_condition_second_kind ::
  "mesh_1d \<Rightarrow> real list \<Rightarrow> stationary_boundary \<Rightarrow> real list" where
  "boundary_condition_second_kind m f bound_cond =
     (let step = (\<lambda>(bc, pos) f.
            if fst bc = SECOND_KIND then f[pos := f ! pos + snd bc] else f)
      in step (snd bound_cond, nodes_count_1d m - 1) (step (fst bound_cond, 0) f))"

definition integrate_function_1d :: "mesh_1d \<Rightarrow> nat \<Rightarrow> nat \<Rightarrow> (real \<Rightarrow> real) \<Rightarrow> real" where
  "integrate_function_1d m e i func =
     (let el = element_1d m in
      fold (\<lambda>q integral. integral + weight el q * qN el i q * func (quad_coord_1d m e q))
        [0..<qnodes_count el] 0
        * jacobian_1d m)"

definition integrate_right_part_1d :: "mesh_1d \<Rightarrow> real list \<Rightarrow> (real \<Rightarrow> real) \<Rightarrow> real list" where
  "integrate_right_part_1d m f right_part =
     fold (\<lambda>node.
       fold (\<lambda>entry f.
         case entry of
           Some (e, i) \<Rightarrow> f[node := f ! node + integrate_function_1d m e i right_part]
         | None \<Rightarrow> f)
         (node_elements m node))
       [0..<nodes_count_1d m] f"

text \<open>
  \<open>stationary\<close>. The linear solver (\<open>Eigen::ConjugateGradient\<close>, library code) is a parameter
  \<open>solve\<close>: from the matrix and the right-hand side to the solution vector. The part of the body
  between the test of the boundary data and the call of the solver, which builds the matrix and
  the right-hand side, is \<open>stationary_system\<close>.
\<close>

definition neumann_task_1d :: "stationary_boundary \<Rightarrow> bool" where
  "neumann_task_1d bound_cond =
     (fst (fst bound_cond) = SECOND_KIND \<and> fst (snd bound_cond) = SECOND_KIND)"

definition stationary_system ::
  "mesh_1d \<Rightarrow> equation_parameters \<Rightarrow> stationary_boundary \<Rightarrow> (real \<Rightarrow> real) \<Rightarrow> (real \<Rightarrow> real \<Rightarrow> real)
     \<Rightarrow> sparse_matrix \<times> real list" where
  "stationary_system m parameters bound_cond right_part influence_function =
     (let neumann_task = neumann_task_1d bound_cond;
          nonlocal_task = (p1 parameters < 999 / 1000);
          size = nodes_count_1d m + bool_to_nat neumann_task;
          K = \<lparr>outerIndexPtr = replicate (size + 1) 0, innerIndexPtr = [], valuePtr = []\<rparr>;
          Kb = ([], []);
          f = replicate size 0;
          integrate_rule_loc = (\<lambda>e i j. lambda parameters * p1 parameters * integrate_loc m e i j);
          integrate_rule_nonloc = (\<lambda>eL eNL iL jNL influence_function.
             lambda parameters * (1 - p1 parameters) * integrate_nonloc m eL eNL iL jNL influence_function);
          K = create_matrix m K neumann_task bound_cond integrate_rule_loc
                integrate_rule_nonloc nonlocal_task influence_function;
          f = integrate_right_part_1d m f right_part;
          f = boundary_condition_second_kind m f bound_cond;
          f = boundary_condition_first_kind_1d m f bound_cond Kb
      in (K, f))"

definition stationary ::
  "mesh_1d \<Rightarrow> (sparse_matrix \<Rightarrow> real list \<Rightarrow> real list) \<Rightarrow> equation_parameters \<Rightarrow> stationary_boundary
     \<Rightarrow> (real \<Rightarrow> real) \<Rightarrow> (real \<Rightarrow> real \<Rightarrow> real) \<Rightarrow> error + real list" where
  "stationary m solve parameters bound_cond right_part influence_function =
     (if neumann_task_1d bound_cond \<and> snd (fst bound_cond) + snd (snd bound_cond) > 1 / 100000
      then Inl DomainError
      else
        case stationary_system m parameters bound_cond right_part influence_function of
          (K, f) \<Rightarrow>
            let temperature = solve K f
            in Inr (take (nodes_count_1d m) temperature))"

text \<open>
  The mass rule as the specification words it: the quadrature sum of
  \<open>weight q * qN i q * qN j q\<close> over all quadrature nodes of the element, times the Jacobian.
\<close>

definition mass_quadrature :: "mesh_1d \<Rightarrow> nat \<Rightarrow> nat \<Rightarrow> nat \<Rightarrow> real" where
  "mass_quadrature m e i j =
     (\<Sum>q < qnodes_count (element_1d m).
        weight (element_1d m) q * qN (element_1d m) i q * qN (element_1d m) j q) * jacobian_1d m"

subsection \<open>Example data: two linear elements on the segment [0, 1]\<close>

text \<open>The linear element with the one-point Gauss rule.\<close>

definition linear_gauss1 :: element where
  "linear_gauss1 =
     \<lparr>nodes_count = 2, qnodes_count = 1, weight = (\<lambda>q. 2), qN = (\<lambda>i q. 1 / 2),
      qNxi = (\<lambda>i q. if i = 0 then - 1 / 2 else 1 / 2), qNeta = (\<lambda>i q. 0)\<rparr>"

text \<open>The linear element with the three-point Gauss rule (nodes \<open>-\<surd>(3/5), 0, \<surd>(3/5)\<close>,
  weights \<open>5/9, 8/9, 5/9\<close>).\<close>

definition gauss3_node :: "nat \<Rightarrow> real" where
  "gauss3_node q = (if q = 0 then - sqrt (3 / 5) else if q = 1 then 0 else sqrt (3 / 5))"

definition linear_gauss3 :: element where
  "linear_gauss3 =
     \<lparr>nodes_count = 2, qnodes_count = 3, weight = (\<lambda>q. if q = 1 then 8 / 9 else 5 / 9),
      qN = (\<lambda>i q. if i = 0 then (1 - gauss3_node q) / 2 else (1 + gauss3_node q) / 2),
      qNxi = (\<lambda>i q. if i = 0 then - 1 / 2 else 1 / 2), qNeta = (\<lambda>i q. 0)\<rparr>"

definition two_segments :: "element \<Rightarrow> mesh_1d" where
  "two_segments el =
     \<lparr>element_1d = el, nodes_count_1d = 3, elements_count_1d = 2, jacobian_1d = 1 / 4,
      node_number_1d = (\<lambda>e i. e + i),
      node_elements = (\<lambda>node. [if node = 0 then None else Some (node - 1, 1),
                                if node = 2 then None else Some (node, 0)]),
      left_neighbour = (\<lambda>e. e), right_neighbour = (\<lambda>e. e + 1),
      quad_coord_1d = (\<lambda>e q. (real e + 1 / 2) / 2)\<rparr>"

definition unit_parameters :: equation_parameters where
  "unit_parameters = \<lparr>lambda = 1, rho = 1, c = 1, p1 = 1, r = 0\<rparr>"

section \<open>The 2D mesh and the operations of \<open>finite_element_routine\<close>\<close>

text \<open>
  The class \<open>mesh_2d\<close> is used through its interface only; its members are the fields of
  this record. \<open>element_2d mesh el\<close> is \<open>mesh.element_2d(mesh.element_2d_type(el))\<close>; the members
  with a boundary group as first argument (\<open>elements_count(b)\<close>, \<open>element_1d(b, el)\<close>,
  \<open>node_number(b, el, i)\<close>) carry the prefix \<open>boundary\<close>. A point \<open>std::array<T, 2>\<close> is a pair,
  a Jacobi matrix \<open>std::array<T, 4>\<close> a quadruple.
\<close>

record mesh_2d =
  elements_count :: nat
  element_2d :: "nat \<Rightarrow> element"
  node :: "nat \<Rightarrow> real \<times> real"
  node_number :: "nat \<Rightarrow> nat \<Rightarrow> nat"
  element_neighbors :: "nat \<Rightarrow> nat list"
  boundary_groups_count :: nat
  boundary_elements_count :: "nat \<Rightarrow> nat"
  boundary_element_1d :: "nat \<Rightarrow> nat \<Rightarrow> element"
  boundary_node_number :: "nat \<Rightarrow> nat \<Rightarrow> nat \<Rightarrow> nat"


text \<open>
  An assignment \<open>v[k] = g(v[k])\<close> to a cell of a \<open>std::vector\<close> through \<open>operator[]\<close>, which does
  not check the index: past the end of the vector the run is undefined, and stays so.
\<close>

definition at_index :: "nat \<Rightarrow> ('a \<Rightarrow> 'a) \<Rightarrow> error + 'a list \<Rightarrow> error + 'a list" where
  "at_index k g v =
     (case v of
        Inl e \<Rightarrow> Inl e
      | Inr l \<Rightarrow> if k < length l then Inr (l[k := g (l ! k)]) else Inl OutOfRange)"








section \<open>First-kind boundary conditions of the 2D solver\<close>

text \<open>
  \<open>boundary_condition<T, B, DoF>\<close> is used through \<open>type(comp)\<close> and \<open>func(comp)\<close>. The enum
  \<open>boundary_type\<close> has the members of \<open>boundary_condition_t\<close> and shares its datatype.
\<close>

record boundary_condition =
  bc_type :: "nat \<Rightarrow> boundary_condition_t"
  bc_func :: "nat \<Rightarrow> real \<times> real \<Rightarrow> real"

definition boundary_nodes_run :: "mesh_2d \<Rightarrow> (nat \<Rightarrow> nat \<Rightarrow> nat \<Rightarrow> 's \<Rightarrow> 's) \<Rightarrow> 's \<Rightarrow> 's" where
  "boundary_nodes_run mesh callback =
     fold (\<lambda>b.
       fold (\<lambda>el.
         fold (\<lambda>i. callback b el i) [0..<nodes_count (boundary_element_1d mesh b el)])
         [0..<boundary_elements_count mesh b])
       [0..<boundary_groups_count mesh]"

text \<open>The first run over the boundary nodes in \<open>boundary_condition_first_kind\<close>: the vector \<open>x\<close>
  (\<open>K_bound_cols\<close> is \<open>K_bound.cols()\<close>).\<close>

definition first_kind_values ::
  "nat \<Rightarrow> mesh_2d \<Rightarrow> boundary_condition list \<Rightarrow> nat \<Rightarrow> real list" where
  "first_kind_values dof mesh bounds_cond K_bound_cols =
     boundary_nodes_run mesh
       (\<lambda>b el i.
          fold (\<lambda>comp x.
            if bc_type (bounds_cond ! b) comp = FIRST_KIND then
              let nd = dof * boundary_node_number mesh b el i + comp in
              if x ! nd = 0 then x[nd := bc_func (bounds_cond ! b) comp (node mesh nd)] else x
            else x)
            [0..<dof])
       (replicate K_bound_cols 0)"

text \<open>The product \<open>K_bound * x\<close> of a compressed row-major matrix with a dense vector.\<close>

definition sparse_times :: "sparse_matrix \<Rightarrow> real list \<Rightarrow> real list" where
  "sparse_times K x =
     map (\<lambda>row. fold (\<lambda>p acc. acc + valuePtr K ! p * x ! (innerIndexPtr K ! p))
                  [outerIndexPtr K ! row..<outerIndexPtr K ! (row + 1)] 0)
       [0..<rows K]"

definition boundary_condition_first_kind ::
  "nat \<Rightarrow> mesh_2d \<Rightarrow> nat \<Rightarrow> nat \<Rightarrow> real list \<Rightarrow> boundary_condition list \<Rightarrow> sparse_matrix \<Rightarrow> nat
     \<Rightarrow> real list" where
  "boundary_condition_first_kind dof mesh first_node last_node f bounds_cond Kb K_bound_cols =
     (let x = first_kind_values dof mesh bounds_cond K_bound_cols;
          f1 = map (\<lambda>(a, b). a - b) (zip f (sparse_times Kb x))
      in boundary_nodes_run mesh
           (\<lambda>b el i.
              fold (\<lambda>comp f.
                if bc_type (bounds_cond ! b) comp = FIRST_KIND then
                  let nd = dof * boundary_node_number mesh b el i + comp in
                  if nd \<ge> dof * first_node \<and> nd < dof * last_node
                  then f[nd - dof * first_node := x ! nd] else f
                else f)
                [0..<dof])
           f1)"

subsection \<open>Example data: two boundary groups that meet in a node\<close>

text \<open>
  Three nodes on the boundary of a scalar problem; the group 0 is the linear boundary element
  with the nodes 0 and 1, the group 1 the one with the nodes 1 and 2. Both groups carry a first-kind
  condition, with the value 0 on the group 0 and the value 5 on the group 1.
\<close>

definition corner_mesh :: mesh_2d where
  "corner_mesh =
     \<lparr>elements_count = 0, element_2d = (\<lambda>el. linear_gauss1), node = (\<lambda>n. (real n, 0)),
      node_number = (\<lambda>el i. 0), element_neighbors = (\<lambda>el. []),
      boundary_groups_count = 2, boundary_elements_count = (\<lambda>b. 1),
      boundary_element_1d = (\<lambda>b el. linear_gauss1),
      boundary_node_number = (\<lambda>b el i. b + i)\<rparr>"

definition corner_conditions :: "boundary_condition list" where
  "corner_conditions =
     [\<lparr>bc_type = (\<lambda>comp. FIRST_KIND), bc_func = (\<lambda>comp x. 0)\<rparr>,
      \<lparr>bc_type = (\<lambda>comp. FIRST_KIND), bc_func = (\<lambda>comp x. 5)\<rparr>]"

section \<open>Reading the elements of an SU2 file and writing the cells of a VTK file\<close>

text \<open>
  The input stream is a list of tokens with the fail bit of the stream. Reading a string takes
  any token. Reading a number into a variable of an integer type whose largest value is \<open>limit\<close>
  takes a numeric token: a number up to \<open>limit\<close> is stored; a larger one is consumed, \<open>limit\<close> is
  stored and the fail bit is set. On anything else (or at the end of the input, or with the fail
  bit set) it sets the fail bit and the variable read into, which starts as 0 everywhere in the
  parser, is 0. The parser reads the element count and the element codes into \<open>size_t\<close>, whose
  largest value is the parameter \<open>size_max\<close>, and the node numbers into the index type \<open>I\<close>, whose
  largest value is the parameter \<open>index_max\<close>.
\<close>

datatype token = Word string | Number nat

record stream =
  tokens :: "token list"
  failbit :: bool


definition get_number :: "nat \<Rightarrow> stream \<Rightarrow> nat \<times> stream" where
  "get_number limit s =
     (if failbit s then (0, s)
      else case tokens s of
             Number n # ts \<Rightarrow>
               if n \<le> limit then (n, s\<lparr>tokens := ts\<rparr>)
               else (limit, s\<lparr>tokens := ts, failbit := True\<rparr>)
           | _ \<Rightarrow> (0, s\<lparr>failbit := True\<rparr>))"

datatype element_2d_t =
  TRIANGLE | QUADRATIC_TRIANGLE | BILINEAR | QUADRATIC_SERENDIPITY | QUADRATIC_LAGRANGE
  | CUBIC_SERENDIPITY


text \<open>\<open>read_element<K...>\<close>: the numbers are read in file order into the slots \<open>K...\<close> of a
  vector of zeros.\<close>

fun read_element_into :: "nat \<Rightarrow> nat list \<Rightarrow> nat list \<Rightarrow> stream \<Rightarrow> nat list \<times> stream" where
  "read_element_into index_max [] element s = (element, s)"
| "read_element_into index_max (k # ks) element s =
     (case get_number index_max s of
        (v, s') \<Rightarrow> read_element_into index_max ks (element[k := v]) s')"

definition read_element :: "nat \<Rightarrow> nat list \<Rightarrow> stream \<Rightarrow> nat list \<times> stream" where
  "read_element index_max ks s = read_element_into index_max ks (replicate (length ks) 0) s"










section \<open>The two indexing passes over the mesh\<close>

text \<open>
  The class \<open>mesh_proxy\<close> is used through its interface only; its members are the fields of
  this record (\<open>proxy_mesh\<close> is \<open>mesh()\<close>).
\<close>

record mesh_proxy_2d =
  proxy_mesh :: mesh_2d
  first_node :: nat
  last_node :: nat
  nodes_elements_map :: "nat \<Rightarrow> nat list"
  neighbors :: "nat \<Rightarrow> nat list"

text \<open>
  \<open>mesh_index\<close>. The node loop is an OpenMP loop whose iterations write disjoint rows; the
  model runs it in index order with one indexator.
\<close>

definition mesh_index ::
  "nat \<Rightarrow> index_stage \<Rightarrow> theory_t \<Rightarrow> mesh_proxy_2d \<Rightarrow> sparse_matrix \<Rightarrow> sparse_matrix \<Rightarrow> bool list
     \<Rightarrow> sparse_matrix \<times> sparse_matrix" where
  "mesh_index dof Stage Theory proxy Ki Kb inodes =
     (let ind =
        fold (\<lambda>node ind.
          fold (\<lambda>eL ind.
            case Theory of
              LOCAL \<Rightarrow>
                fold (\<lambda>jL. index Stage node (node_number (proxy_mesh proxy) eL jL))
                  [0..<nodes_count (element_2d (proxy_mesh proxy) eL)] ind
            | NONLOCAL \<Rightarrow>
                fold (\<lambda>eNL.
                  fold (\<lambda>jNL. index Stage node (node_number (proxy_mesh proxy) eNL jNL))
                    [0..<nodes_count (element_2d (proxy_mesh proxy) eNL)])
                  (neighbors proxy eL) ind)
            (nodes_elements_map proxy node) (fill node ind))
          [first_node proxy..<last_node proxy]
          (new_indexator dof Ki Kb inodes (first_node proxy))
      in (K_inner ind, K_bound ind))"

text \<open>\<open>sort_indices\<close>: \<open>std::sort\<close> on the column indices of each row
  (\<open>outerIndexPtr[i] \<le> outerIndexPtr[i+1]\<close> is the contract of the range).\<close>

definition sort_indices :: "sparse_matrix \<Rightarrow> sparse_matrix" where
  "sort_indices K =
     K\<lparr>innerIndexPtr :=
         fold (\<lambda>i inn.
           let a = outerIndexPtr K ! i; b = outerIndexPtr K ! (i + 1)
           in take a inn @ sort (take (b - a) (drop a inn)) @ drop b inn)
           [0..<rows K] (innerIndexPtr K)\<rparr>"

text \<open>
  Modelled from the spec: the caller of the two passes (in the 2D solvers, which are not among
  the sources). Section 4.3 of the spec: pass S counts the entries of every row into \<open>outer\<close>;
  the counters are prefix-summed and \<open>inner\<close> and \<open>values\<close> are sized; pass N runs the same
  traversal and writes the columns; then the columns are sorted per row. The matrices start
  empty, with one row per degree of freedom of the nodes of this process.
\<close>

definition create_matrix_portrait_2d ::
  "nat \<Rightarrow> theory_t \<Rightarrow> mesh_proxy_2d \<Rightarrow> bool list \<Rightarrow> sparse_matrix \<times> sparse_matrix" where
  "create_matrix_portrait_2d dof Theory proxy inodes =
     (let empty_matrix =
            \<lparr>outerIndexPtr = replicate (dof * (last_node proxy - first_node proxy) + 1) 0,
             innerIndexPtr = [], valuePtr = []\<rparr>
      in case mesh_index dof SHIFTS Theory proxy empty_matrix empty_matrix inodes of
           (Ki1, Kb1) \<Rightarrow>
             (case mesh_index dof NONZERO Theory proxy (prepare_memory Ki1) (prepare_memory Kb1) inodes of
                (Ki2, Kb2) \<Rightarrow> (sort_indices Ki2, sort_indices Kb2)))"

section \<open>The elasticity assembly of \<open>static_analysis\<close>\<close>

text \<open>
  A triplet \<open>Eigen::Triplet<double>\<close> is (row, column, value). The components \<open>X\<close> and \<open>Y\<close> are 0
  and 1. The integration rules \<open>integrate_loc\<close> and \<open>integrate_nonloc\<close> give the value of a triplet
  only; they are parameters here (\<open>rule_loc projection form el i j\<close> and
  \<open>rule_nonloc projection form elL elNL iL jNL\<close>).
\<close>

type_synonym triplet = "nat \<times> nat \<times> real"

definition mesh_run_loc :: "mesh_2d \<Rightarrow> (nat \<Rightarrow> nat \<Rightarrow> nat \<Rightarrow> 's \<Rightarrow> 's) \<Rightarrow> 's \<Rightarrow> 's" where
  "mesh_run_loc mesh rule =
     fold (\<lambda>el.
       fold (\<lambda>i.
         fold (\<lambda>j. rule i j el) [0..<nodes_count (element_2d mesh el)])
         [0..<nodes_count (element_2d mesh el)])
       [0..<elements_count mesh]"

definition mesh_run_nonloc :: "mesh_2d \<Rightarrow> (nat \<Rightarrow> nat \<Rightarrow> nat \<Rightarrow> nat \<Rightarrow> 's \<Rightarrow> 's) \<Rightarrow> 's \<Rightarrow> 's" where
  "mesh_run_nonloc mesh rule =
     fold (\<lambda>elL.
       fold (\<lambda>elNL.
         fold (\<lambda>iL.
           fold (\<lambda>jNL. rule iL jNL elL elNL) [0..<nodes_count (element_2d mesh elNL)])
           [0..<nodes_count (element_2d mesh elL)])
         (element_neighbors mesh elL))
       [0..<elements_count mesh]"

text \<open>The four calls of a rule for the component pairs (X, X), (X, Y), (Y, X), (Y, Y).\<close>

definition all_components :: "(nat \<Rightarrow> nat \<Rightarrow> 's \<Rightarrow> 's) \<Rightarrow> 's \<Rightarrow> 's" where
  "all_components rule st = rule 1 1 (rule 1 0 (rule 0 1 (rule 0 0 st)))"

definition counter ::
  "bool list \<Rightarrow> nat \<Rightarrow> nat \<Rightarrow> nat \<Rightarrow> nat list \<times> nat list \<Rightarrow> nat list \<times> nat list" where
  \<comment> \<open>the common body of \<open>counter_loc\<close> and \<open>counter_nonloc\<close>, after \<open>row\<close> and \<open>col\<close> are computed\<close>
  "counter inodes row col el st =
     (case st of (shifts, shifts_bound) \<Rightarrow>
        if row \<ge> col then
          if inodes ! row \<and> inodes ! col then (shifts[el + 1 := shifts ! (el + 1) + 1], shifts_bound)
          else if row \<noteq> col then (shifts, shifts_bound[el + 1 := shifts_bound ! (el + 1) + 1])
          else st
        else st)"

definition counter_loc ::
  "mesh_2d \<Rightarrow> bool list \<Rightarrow> nat \<Rightarrow> nat \<Rightarrow> nat \<Rightarrow> nat \<Rightarrow> nat \<Rightarrow> nat list \<times> nat list \<Rightarrow> nat list \<times> nat list" where
  "counter_loc mesh inodes i j el projection form =
     counter inodes (2 * node_number mesh el i + projection) (2 * node_number mesh el j + form) el"

definition counter_nonloc ::
  "mesh_2d \<Rightarrow> bool list \<Rightarrow> nat \<Rightarrow> nat \<Rightarrow> nat \<Rightarrow> nat \<Rightarrow> nat \<Rightarrow> nat \<Rightarrow> nat list \<times> nat list
     \<Rightarrow> nat list \<times> nat list" where
  "counter_nonloc mesh inodes iL jNL elL elNL projection form =
     counter inodes (2 * node_number mesh elL iL + projection)
       (2 * node_number mesh elNL jNL + form) elL"

definition accumulate :: "nat list \<Rightarrow> nat list" where
  \<comment> \<open>\<open>for (i = 1; i < size; ++i) shifts[i] += shifts[i-1]\<close>\<close>
  "accumulate shifts = fold (\<lambda>i sh. sh[i := sh ! i + sh ! (i - 1)]) [1..<length shifts] shifts"

definition mesh_analysis ::
  "mesh_2d \<Rightarrow> bool list \<Rightarrow> bool \<Rightarrow> nat list \<times> nat list \<times> nat list \<times> nat list" where
  "mesh_analysis mesh inodes nonlocal =
     (case mesh_run_loc mesh (\<lambda>i j el. all_components (counter_loc mesh inodes i j el))
             (replicate (elements_count mesh + 1) 0, replicate (elements_count mesh + 1) 0) of
        (counts_loc, counts_bound_loc) \<Rightarrow>
          let shifts_loc = accumulate (counts_loc[0 := length (filter (\<lambda>b. \<not> b) inodes)]);
              shifts_bound_loc = accumulate counts_bound_loc
          in if nonlocal then
               (case mesh_run_nonloc mesh
                       (\<lambda>iL jNL elL elNL. all_components (counter_nonloc mesh inodes iL jNL elL elNL))
                       (replicate (elements_count mesh + 1) 0, replicate (elements_count mesh + 1) 0) of
                  (counts_nonloc, counts_bound_nonloc) \<Rightarrow>
                    (shifts_loc, shifts_bound_loc,
                     accumulate (counts_nonloc[0 := last shifts_loc]),
                     accumulate (counts_bound_nonloc[0 := last shifts_bound_loc])))
             else (shifts_loc, shifts_bound_loc, [], []))"

definition filler ::
  "bool list \<Rightarrow> nat \<Rightarrow> nat \<Rightarrow> nat \<Rightarrow> real
     \<Rightarrow> triplet list \<times> triplet list \<times> nat list \<times> nat list
     \<Rightarrow> triplet list \<times> triplet list \<times> nat list \<times> nat list" where
  \<comment> \<open>the common body of \<open>filler_loc\<close> and \<open>filler_nonloc\<close>, after \<open>row\<close>, \<open>col\<close> and the integral\<close>
  "filler inodes row col el integral st =
     (case st of (triplets, triplets_bound, shifts, shifts_bound) \<Rightarrow>
        if row \<ge> col then
          if inodes ! row \<and> inodes ! col
          then (triplets[shifts ! el := (row, col, integral)], triplets_bound,
                shifts[el := shifts ! el + 1], shifts_bound)
          else if row \<noteq> col
          then (triplets,
                triplets_bound[shifts_bound ! el :=
                  (if inodes ! col then (col, row, integral) else (row, col, integral))],
                shifts, shifts_bound[el := shifts_bound ! el + 1])
          else st
        else st)"

definition triplets_fill ::
  "mesh_2d \<Rightarrow> bool list \<Rightarrow> real \<Rightarrow> (nat \<Rightarrow> nat \<Rightarrow> nat \<Rightarrow> nat \<Rightarrow> nat \<Rightarrow> real)
     \<Rightarrow> (nat \<Rightarrow> nat \<Rightarrow> nat \<Rightarrow> nat \<Rightarrow> nat \<Rightarrow> nat \<Rightarrow> real) \<Rightarrow> triplet list \<times> triplet list" where
  "triplets_fill mesh inodes weight_p1 rule_loc rule_nonloc =
     (let nonlocal = (weight_p1 < 999 / 1000) in
      case mesh_analysis mesh inodes nonlocal of
        (shifts_loc, shifts_bound_loc, shifts_nonloc, shifts_bound_nonloc) \<Rightarrow>
          let triplets0 = replicate (if nonlocal then last shifts_nonloc else last shifts_loc) (0, 0, 0);
              triplets_bound0 =
                replicate (if nonlocal then last shifts_bound_nonloc else last shifts_bound_loc) (0, 0, 0);
              triplets1 =
                fst (fold (\<lambda>i (triplets, j).
                            if \<not> inodes ! i then (triplets[j := (i, i, 1)], j + 1) else (triplets, j))
                       [0..<length inodes] (triplets0, 0))
          in case mesh_run_loc mesh
                    (\<lambda>i j el. all_components (\<lambda>projection form.
                       filler inodes (2 * node_number mesh el i + projection)
                         (2 * node_number mesh el j + form) el
                         (weight_p1 * rule_loc projection form el i j)))
                    (triplets1, triplets_bound0, shifts_loc, shifts_bound_loc) of
               (triplets2, triplets_bound2, _, _) \<Rightarrow>
                 if nonlocal then
                   (case mesh_run_nonloc mesh
                           (\<lambda>iL jNL elL elNL. all_components (\<lambda>projection form.
                              filler inodes (2 * node_number mesh elL iL + projection)
                                (2 * node_number mesh elNL jNL + form) elL
                                ((1 - weight_p1) * rule_nonloc projection form elL elNL iL jNL)))
                           (triplets2, triplets_bound2, shifts_nonloc, shifts_bound_nonloc) of
                      (triplets3, triplets_bound3, _, _) \<Rightarrow> (triplets3, triplets_bound3))
                 else (triplets2, triplets_bound2))"

subsection \<open>Example data: one triangle\<close>

definition one_triangle :: mesh_2d where
  "one_triangle =
     \<lparr>elements_count = 1,
      element_2d = (\<lambda>el. \<lparr>nodes_count = 3, qnodes_count = 1, weight = (\<lambda>q. 1 / 2),
                          qN = (\<lambda>i q. 1 / 3),
                          qNxi = (\<lambda>i q. if i = 0 then - 1 else if i = 1 then 1 else 0),
                          qNeta = (\<lambda>i q. if i = 0 then - 1 else if i = 2 then 1 else 0)\<rparr>),
      node = (\<lambda>n. if n = 0 then (0, 0) else if n = 1 then (1, 0) else (0, 1)),
      node_number = (\<lambda>el i. i), element_neighbors = (\<lambda>el. [0]),
      boundary_groups_count = 0, boundary_elements_count = (\<lambda>b. 0),
      boundary_element_1d = (\<lambda>b el. linear_gauss1),
      boundary_node_number = (\<lambda>b el i. 0)\<rparr>"

definition one_triangle_proxy :: mesh_proxy_2d where
  "one_triangle_proxy =
     \<lparr>proxy_mesh = one_triangle, first_node = 0, last_node = 3,
      nodes_elements_map = (\<lambda>node. [0]), neighbors = (\<lambda>el. [0])\<rparr>"

subsection \<open>Auxiliary notions for the geometry tables\<close>

text \<open>
  The common shape of the loops of the three precomputations: for every element \<open>el < n\<close> and every
  \<open>q < m el\<close> the cell \<open>s el + q\<close> is replaced by \<open>V el q\<close> of its content.
\<close>

definition blocks ::
  "(nat \<Rightarrow> nat) \<Rightarrow> (nat \<Rightarrow> nat) \<Rightarrow> (nat \<Rightarrow> nat \<Rightarrow> 'a \<Rightarrow> 'a) \<Rightarrow> nat \<Rightarrow> 'a list \<Rightarrow> 'a list" where
  "blocks s m V n l =
     fold (\<lambda>el. fold (\<lambda>q l. l[s el + q := V el q (l ! (s el + q))]) [0..<m el]) [0..<n] l"

text \<open>The shifts are running sums of the quadrature node counts.\<close>

definition running_sums :: "nat list \<Rightarrow> nat \<Rightarrow> (nat \<Rightarrow> nat) \<Rightarrow> bool" where
  "running_sums shifts n m = (\<forall>el < n. shifts ! (el + 1) = shifts ! el + m el)"

subsection \<open>Example data: a strip of two elements\<close>




subsection \<open>Example data: indexators on two nodes with two components\<close>

text \<open>
  Two nodes with two degrees of freedom each: the degrees 0 and 1 of node 0 are interior, the
  degrees 2 and 3 of node 1 carry a first-kind condition. \<open>counting_indexator\<close> is an indexator
  on empty matrices, as pass \<open>SHIFTS\<close> starts with; \<open>writing_indexator nd\<close> is an indexator on
  matrices with allocated rows, after \<open>fill(nd)\<close>, as in pass \<open>NONZERO\<close> (the unwritten columns show
  as 9).
\<close>

definition vector_nodes :: "bool list" where
  "vector_nodes = [True, True, False, False]"

definition counting_indexator :: indexator where
  "counting_indexator =
     new_indexator 2
       \<lparr>outerIndexPtr = [0, 0, 0, 0, 0], innerIndexPtr = [], valuePtr = []\<rparr>
       \<lparr>outerIndexPtr = [0, 0, 0, 0, 0], innerIndexPtr = [], valuePtr = []\<rparr>
       vector_nodes 0"

definition writing_indexator :: "nat \<Rightarrow> indexator" where
  "writing_indexator nd =
     fill nd (new_indexator 2
       \<lparr>outerIndexPtr = [0, 2, 3, 4, 5], innerIndexPtr = [9, 9, 9, 9, 9], valuePtr = [1, 1, 1, 1, 1]\<rparr>
       \<lparr>outerIndexPtr = [0, 2, 4, 5, 6], innerIndexPtr = [9, 9, 9, 9, 9, 9],
        valuePtr = [1, 1, 1, 1, 1, 1]\<rparr>
       vector_nodes 0)"

subsection \<open>Auxiliary notions for the two indexing passes\<close>

text \<open>
  The indexator is followed on its inner matrix. A call \<open>index(block_row, block_col)\<close> visits
  the pairs (row, col) of \<open>block_pairs\<close> in order; \<open>to_inner\<close> is the test of \<open>index\<close> that sends a
  pair to \<open>stage(K_inner, ...)\<close>. \<open>visited\<close> lists the block columns that \<open>mesh_index\<close> hands to
  \<open>index\<close> for a node, in order, and \<open>node_pairs\<close> the pairs staged into \<open>K_inner\<close> for that node.
\<close>

definition to_inner :: "bool list \<Rightarrow> nat \<times> nat \<Rightarrow> bool" where
  "to_inner inodes p =
     (if inodes ! fst p \<and> inodes ! snd p then fst p \<le> snd p else fst p = snd p)"

definition block_pairs :: "nat \<Rightarrow> nat \<Rightarrow> nat \<Rightarrow> (nat \<times> nat) list" where
  "block_pairs d block_row block_col =
     concat (map (\<lambda>comp_row. map (\<lambda>comp_col. (d * block_row + comp_row, d * block_col + comp_col)) [0..<d]) [0..<d])"

definition visited :: "theory_t \<Rightarrow> mesh_proxy_2d \<Rightarrow> nat \<Rightarrow> nat list" where
  "visited Theory proxy nd =
     concat (map (\<lambda>eL.
       case Theory of
         LOCAL \<Rightarrow> map (node_number (proxy_mesh proxy) eL) [0..<nodes_count (element_2d (proxy_mesh proxy) eL)]
       | NONLOCAL \<Rightarrow>
           concat (map (\<lambda>eNL. map (node_number (proxy_mesh proxy) eNL)
                                  [0..<nodes_count (element_2d (proxy_mesh proxy) eNL)])
                    (neighbors proxy eL)))
       (nodes_elements_map proxy nd))"

definition node_pairs :: "nat \<Rightarrow> theory_t \<Rightarrow> mesh_proxy_2d \<Rightarrow> bool list \<Rightarrow> nat \<Rightarrow> (nat \<times> nat) list" where
  "node_pairs d Theory proxy inodes nd =
     filter (to_inner inodes) (concat (map (block_pairs d nd) (visited Theory proxy nd)))"

text \<open>
  The part of an indexator that \<open>stage(K_inner, ...)\<close> and \<open>fill\<close> read and write
  (\<open>inner_part\<close>), its constant members (\<open>consts_of\<close>), \<open>fill\<close> and a run of \<open>stage\<close> calls on that
  part alone, and the whole node loop on it (\<open>inner_pass\<close>).
\<close>

definition inner_part :: "indexator \<Rightarrow> sparse_matrix \<times> bool list list \<times> nat list" where
  "inner_part ind = (K_inner ind, inner_flags ind, inner_index ind)"

definition consts_of :: "indexator \<Rightarrow> nat \<times> bool list \<times> nat" where
  "consts_of ind = (DoF ind, inner_nodes ind, node_shift ind)"

definition fill_inner ::
  "nat \<Rightarrow> nat \<Rightarrow> nat \<Rightarrow> sparse_matrix \<times> bool list list \<times> nat list \<Rightarrow> sparse_matrix \<times> bool list list \<times> nat list" where
  "fill_inner d sh nd s =
     (case s of (K, fl, idx) \<Rightarrow>
        (K, fold (\<lambda>i fl. fl[i := fill_from (d * nd) (fl ! i)]) [0..<d] fl,
         fold (\<lambda>i idx. idx[i := outerIndexPtr K ! (d * (nd - sh) + i)]) [0..<d] idx))"

definition stage_pairs ::
  "nat \<Rightarrow> nat \<Rightarrow> index_stage \<Rightarrow> (nat \<times> nat) list \<Rightarrow> sparse_matrix \<times> bool list list \<times> nat list
     \<Rightarrow> sparse_matrix \<times> bool list list \<times> nat list" where
  "stage_pairs d sh Stage ps s = fold (\<lambda>p s. stage d sh Stage s (fst p) (snd p)) ps s"

definition inner_pass ::
  "nat \<Rightarrow> nat \<Rightarrow> index_stage \<Rightarrow> (nat \<Rightarrow> (nat \<times> nat) list) \<Rightarrow> nat list
     \<Rightarrow> sparse_matrix \<times> bool list list \<times> nat list \<Rightarrow> sparse_matrix \<times> bool list list \<times> nat list" where
  "inner_pass d sh Stage Q nodes s =
     fold (\<lambda>nd s. stage_pairs d sh Stage (Q nd) (fill_inner d sh nd s)) nodes s"

text \<open>
  A staged pair is fresh when its flag is not set yet: only fresh pairs are counted (pass
  \<open>SHIFTS\<close>) or written (pass \<open>NONZERO\<close>). \<open>pass_events\<close> lists, node by node, the fresh pairs of a
  pass; it depends on the flags and the traversal only, so both passes have the same events.
\<close>

definition set_flag :: "nat \<Rightarrow> bool list list \<Rightarrow> nat \<times> nat \<Rightarrow> bool list list" where
  "set_flag d fl p = fl[fst p mod d := (fl ! (fst p mod d))[snd p := True]]"

fun fresh :: "nat \<Rightarrow> bool list list \<Rightarrow> (nat \<times> nat) list \<Rightarrow> (nat \<times> nat) list" where
  "fresh d fl [] = []"
| "fresh d fl (p # ps) =
     (if fl ! (fst p mod d) ! snd p then fresh d fl ps else p # fresh d (set_flag d fl p) ps)"

definition fill_flags :: "nat \<Rightarrow> nat \<Rightarrow> bool list list \<Rightarrow> bool list list" where
  "fill_flags d nd fl = fold (\<lambda>i fl. fl[i := fill_from (d * nd) (fl ! i)]) [0..<d] fl"

fun pass_events ::
  "nat \<Rightarrow> (nat \<Rightarrow> (nat \<times> nat) list) \<Rightarrow> nat list \<Rightarrow> bool list list \<Rightarrow> (nat \<times> (nat \<times> nat) list) list" where
  "pass_events d Q [] fl = []"
| "pass_events d Q (nd # nodes) fl =
     (nd, fresh d (fill_flags d nd fl) (Q nd))
       # pass_events d Q nodes (fold (\<lambda>p fl. set_flag d fl p) (Q nd) (fill_flags d nd fl))"

fun pass_flags ::
  "nat \<Rightarrow> (nat \<Rightarrow> (nat \<times> nat) list) \<Rightarrow> nat list \<Rightarrow> bool list list \<Rightarrow> bool list list" where
  "pass_flags d Q [] fl = fl"
| "pass_flags d Q (nd # nodes) fl =
     pass_flags d Q nodes (fold (\<lambda>p fl. set_flag d fl p) (Q nd) (fill_flags d nd fl))"

text \<open>
  What one fresh pair does in each pass: \<open>++outerIndexPtr[row + 1]\<close> in pass \<open>SHIFTS\<close>, and
  \<open>innerIndexPtr[index[row % DoF]++] = col\<close> in pass \<open>NONZERO\<close>, where \<open>fill\<close> has set the cursors
  \<open>index\<close> to the row starts of the node (\<open>row_starts\<close>).
\<close>

definition count_event :: "nat \<Rightarrow> nat \<Rightarrow> nat \<times> nat \<Rightarrow> nat list \<Rightarrow> nat list" where
  "count_event d sh p out = out[fst p - d * sh + 1 := out ! (fst p - d * sh + 1) + 1]"

definition write_event :: "nat \<Rightarrow> nat \<times> nat \<Rightarrow> nat list \<times> nat list \<Rightarrow> nat list \<times> nat list" where
  "write_event d p s =
     (case s of (inn, idx) \<Rightarrow>
        (inn[idx ! (fst p mod d) := snd p], idx[fst p mod d := idx ! (fst p mod d) + 1]))"

definition row_starts :: "nat \<Rightarrow> nat \<Rightarrow> nat list \<Rightarrow> nat \<Rightarrow> nat list" where
  "row_starts d sh outer nd = map (\<lambda>i. outer ! (d * (nd - sh) + i)) [0..<d]"

definition write_node :: "nat \<Rightarrow> nat \<Rightarrow> nat list \<Rightarrow> nat \<times> (nat \<times> nat) list \<Rightarrow> nat list \<Rightarrow> nat list" where
  "write_node d sh outer ne inn =
     fst (fold (write_event d) (snd ne) (inn, row_starts d sh outer (fst ne)))"

text \<open>
  The fresh pairs of a node that belong to its component \<open>i\<close> (\<open>sel\<close>); the shape of the events of
  a node of this process, whose rows are the rows of the node and whose columns are not left of
  the diagonal (\<open>conform\<close>); the stored columns of a row (\<open>seg\<close>).
\<close>

definition sel :: "nat \<Rightarrow> nat \<Rightarrow> (nat \<times> nat) list \<Rightarrow> (nat \<times> nat) list" where
  "sel d i E = filter (\<lambda>p. fst p mod d = i) E"

definition conform :: "nat \<Rightarrow> nat \<Rightarrow> nat \<Rightarrow> nat \<times> (nat \<times> nat) list \<Rightarrow> bool" where
  "conform d sh R ne =
     (sh \<le> fst ne \<and> d * (fst ne - sh) + d \<le> R
      \<and> (\<forall>p \<in> set (snd ne). \<exists>cr<d. fst p = d * fst ne + cr \<and> fst p \<le> snd p))"

definition seg :: "nat list \<Rightarrow> nat \<Rightarrow> nat list \<Rightarrow> nat list" where
  "seg ou rw inn = take (ou ! (rw + 1) - ou ! rw) (drop (ou ! rw) inn)"

subsection \<open>Auxiliary notions for the elasticity assembly\<close>

text \<open>
  A list of triplets lies in the lower triangle when no triplet has its column right of its row.
  The two sample rules are constant integration rules.
\<close>

definition lower_triangular :: "triplet list \<Rightarrow> bool" where
  "lower_triangular ts = (\<forall>t \<in> set ts. fst (snd t) \<le> fst t)"

definition sample_rule_loc :: "nat \<Rightarrow> nat \<Rightarrow> nat \<Rightarrow> nat \<Rightarrow> nat \<Rightarrow> real" where
  "sample_rule_loc projection form el i j = 7"

definition sample_rule_nonloc :: "nat \<Rightarrow> nat \<Rightarrow> nat \<Rightarrow> nat \<Rightarrow> nat \<Rightarrow> nat \<Rightarrow> real" where
  "sample_rule_nonloc projection form elL elNL iL jNL = 9"

section \<open>Properties\<close>

subsection \<open>The mesh proxy of a solver is never null\<close>

lemma set_mesh_all_keeps_proxy:
  "mesh_proxy s \<noteq> None \<Longrightarrow> mesh_proxy (set_mesh_all mps s) \<noteq> None"
  by (induction mps arbitrary: s) (auto simp: set_mesh_def)

text \<open>
  Claim C10. \<open>set_mesh\<close> throws \<open>std::invalid_argument\<close> on a null proxy and leaves the stored
  proxy as it was; on a non-null proxy it stores it. The constructor therefore fails on a null
  proxy, and every solver it constructs holds a non-null proxy, which stays non-null under any further
  \<open>set_mesh\<close> calls: no operation on a constructed solver sees a missing proxy.
\<close>

theorem solver_mesh_proxy_never_null:
  "set_mesh None s = (Inl InvalidArgument, s)
   \<and> set_mesh (Some p) s = (Inr (), s\<lparr>mesh_proxy := Some p\<rparr>)
   \<and> new_finite_element_solver_base (None :: 'p option) = Inl InvalidArgument
   \<and> (new_finite_element_solver_base mp = Inr s' \<longrightarrow>
        mesh_proxy s' \<noteq> None \<and> mesh_proxy (set_mesh_all mps s') \<noteq> None)"
proof -
  have "mesh_proxy s' \<noteq> None" if "new_finite_element_solver_base mp = Inr s'"
    using that by (auto simp: new_finite_element_solver_base_def set_mesh_def split: if_splits)
  then show ?thesis
    by (auto simp: new_finite_element_solver_base_def set_mesh_def set_mesh_all_keeps_proxy)
qed

theorem solver_mesh_proxy_never_null_witness:
  "new_finite_element_solver_base (Some (7::nat)) = Inr \<lparr>mesh_proxy = Some 7\<rparr>
   \<and> mesh_proxy (set_mesh_all [None, Some 3, None] \<lparr>mesh_proxy = Some (7::nat)\<rparr>) \<noteq> None
   \<and> set_mesh None \<lparr>mesh_proxy = Some (7::nat)\<rparr> = (Inl InvalidArgument, \<lparr>mesh_proxy = Some 7\<rparr>)"
proof -
  have c: "new_finite_element_solver_base (Some (7::nat)) = Inr \<lparr>mesh_proxy = Some 7\<rparr>"
    by (simp add: new_finite_element_solver_base_def set_mesh_def)
  from solver_mesh_proxy_never_null
      [of "\<lparr>mesh_proxy = Some (7::nat)\<rparr>" 7 "Some (7::nat)" "\<lparr>mesh_proxy = Some (7::nat)\<rparr>"
          "[None, Some (3::nat), None]"] c
  show ?thesis by blast
qed

subsection \<open>Routing of a degree-of-freedom pair by the indexator\<close>

lemma fold_product:
  "fold (\<lambda>(a, b). f a b) (List.product xs ys) = fold (\<lambda>a. fold (\<lambda>b. f a b) ys) xs"
  by (induction xs) (simp_all add: fold_map comp_def)

lemma stage_inner_effect:
  "K_bound (stage_inner Stage ind row col) = K_bound ind"
  "bound_flags (stage_inner Stage ind row col) = bound_flags ind"
  "bound_index (stage_inner Stage ind row col) = bound_index ind"
  "inner_flags ind ! (row mod DoF ind) ! col \<Longrightarrow> stage_inner Stage ind row col = ind"
  "\<not> inner_flags ind ! (row mod DoF ind) ! col \<Longrightarrow>
     inner_flags (stage_inner Stage ind row col)
       = (inner_flags ind)[row mod DoF ind := (inner_flags ind ! (row mod DoF ind))[col := True]]"
  "\<not> inner_flags ind ! (row mod DoF ind) ! col \<Longrightarrow>
     K_inner (stage_inner SHIFTS ind row col)
       = K_inner ind\<lparr>outerIndexPtr := (outerIndexPtr (K_inner ind))
           [row - DoF ind * node_shift ind + 1 :=
              outerIndexPtr (K_inner ind) ! (row - DoF ind * node_shift ind + 1) + 1]\<rparr>
   \<and> inner_index (stage_inner SHIFTS ind row col) = inner_index ind"
  "\<not> inner_flags ind ! (row mod DoF ind) ! col \<Longrightarrow>
     K_inner (stage_inner NONZERO ind row col)
       = K_inner ind\<lparr>valuePtr := (valuePtr (K_inner ind))[inner_index ind ! (row mod DoF ind) := 0],
                      innerIndexPtr := (innerIndexPtr (K_inner ind))
                         [inner_index ind ! (row mod DoF ind) := col]\<rparr>
   \<and> inner_index (stage_inner NONZERO ind row col)
       = (inner_index ind)[row mod DoF ind := inner_index ind ! (row mod DoF ind) + 1]"
  by (simp_all add: stage_inner_def stage_def Let_def split: index_stage.splits)

lemma stage_bound_effect:
  "K_inner (stage_bound Stage ind row col) = K_inner ind"
  "inner_flags (stage_bound Stage ind row col) = inner_flags ind"
  "inner_index (stage_bound Stage ind row col) = inner_index ind"
  "bound_flags ind ! (row mod DoF ind) ! col \<Longrightarrow> stage_bound Stage ind row col = ind"
  "\<not> bound_flags ind ! (row mod DoF ind) ! col \<Longrightarrow>
     bound_flags (stage_bound Stage ind row col)
       = (bound_flags ind)[row mod DoF ind := (bound_flags ind ! (row mod DoF ind))[col := True]]"
  "\<not> bound_flags ind ! (row mod DoF ind) ! col \<Longrightarrow>
     K_bound (stage_bound SHIFTS ind row col)
       = K_bound ind\<lparr>outerIndexPtr := (outerIndexPtr (K_bound ind))
           [row - DoF ind * node_shift ind + 1 :=
              outerIndexPtr (K_bound ind) ! (row - DoF ind * node_shift ind + 1) + 1]\<rparr>
   \<and> bound_index (stage_bound SHIFTS ind row col) = bound_index ind"
  "\<not> bound_flags ind ! (row mod DoF ind) ! col \<Longrightarrow>
     K_bound (stage_bound NONZERO ind row col)
       = K_bound ind\<lparr>valuePtr := (valuePtr (K_bound ind))[bound_index ind ! (row mod DoF ind) := 0],
                      innerIndexPtr := (innerIndexPtr (K_bound ind))
                         [bound_index ind ! (row mod DoF ind) := col]\<rparr>
   \<and> bound_index (stage_bound NONZERO ind row col)
       = (bound_index ind)[row mod DoF ind := bound_index ind ! (row mod DoF ind) + 1]"
  by (simp_all add: stage_bound_def stage_def Let_def split: index_stage.splits)

text \<open>
  Claim C1. \<open>index\<close> visits the pairs \<open>(row, col)\<close> of the degrees of freedom of the block row and
  the block column, each once, rows first (with one degree of freedom per node it visits the one
  pair). For a visited pair, in either stage: when both are interior and \<open>row \<le> col\<close> the entry is
  recorded in \<open>K_inner\<close>, and when \<open>col < row\<close> nothing changes; when \<open>row \<noteq> col\<close> and \<open>col\<close> is
  first-kind it is recorded in \<open>K_bound\<close>; when \<open>row \<noteq> col\<close>, \<open>row\<close> is first-kind and \<open>col\<close>
  interior, nothing changes; and the diagonal pair of a first-kind degree of freedom is recorded
  in \<open>K_inner\<close>. Recorded in a matrix means: the other matrix, its flags and its cursors stay as
  they were; if the flag of the column is set for this row (the entry was recorded before for this
  node) nothing changes; otherwise the flag is set and, in stage \<open>SHIFTS\<close>, the counter
  \<open>outerIndexPtr[row - DoF * node_shift + 1]\<close> of the matrix grows by one and nothing else in it
  changes, in stage \<open>NONZERO\<close>, the column is written to \<open>innerIndexPtr\<close> and 0 to \<open>valuePtr\<close> at the
  cursor of the row, and the cursor advances by one. All of this is stated for the cells that
  exist: the entries of \<open>inner_nodes\<close> for \<open>row\<close> and \<open>col\<close>, the flag of the pair, the counter
  and the cells under the cursor; the accesses of the source are unchecked.
\<close>

theorem index_routes_by_stencil_rules:
  fixes ind :: indexator and Stage :: index_stage and row col block_row block_col :: nat
  defines "interior \<equiv> (\<lambda>k. inner_nodes ind ! k)"
    and "after \<equiv> index_pair Stage row col ind"
    and "i \<equiv> row mod DoF ind"
    and "tally \<equiv> row - DoF ind * node_shift ind + 1"
  defines "recorded_in_K_inner \<equiv>
      i < length (inner_flags ind) \<and> col < length (inner_flags ind ! i) \<longrightarrow>
      K_bound after = K_bound ind \<and> bound_flags after = bound_flags ind
    \<and> bound_index after = bound_index ind
    \<and> (inner_flags ind ! i ! col \<longrightarrow> after = ind)
    \<and> (\<not> inner_flags ind ! i ! col \<longrightarrow>
         inner_flags after = (inner_flags ind)[i := (inner_flags ind ! i)[col := True]]
       \<and> (Stage = SHIFTS \<and> tally < length (outerIndexPtr (K_inner ind)) \<longrightarrow>
            K_inner after
              = K_inner ind\<lparr>outerIndexPtr := (outerIndexPtr (K_inner ind))
                  [tally := outerIndexPtr (K_inner ind) ! tally + 1]\<rparr>
          \<and> inner_index after = inner_index ind)
       \<and> (Stage = NONZERO \<and> i < length (inner_index ind)
            \<and> inner_index ind ! i < length (innerIndexPtr (K_inner ind))
            \<and> inner_index ind ! i < length (valuePtr (K_inner ind)) \<longrightarrow>
            K_inner after
              = K_inner ind\<lparr>valuePtr := (valuePtr (K_inner ind))[inner_index ind ! i := 0],
                             innerIndexPtr := (innerIndexPtr (K_inner ind))[inner_index ind ! i := col]\<rparr>
          \<and> inner_index after = (inner_index ind)[i := inner_index ind ! i + 1]))"
    and "recorded_in_K_bound \<equiv>
      i < length (bound_flags ind) \<and> col < length (bound_flags ind ! i) \<longrightarrow>
      K_inner after = K_inner ind \<and> inner_flags after = inner_flags ind
    \<and> inner_index after = inner_index ind
    \<and> (bound_flags ind ! i ! col \<longrightarrow> after = ind)
    \<and> (\<not> bound_flags ind ! i ! col \<longrightarrow>
         bound_flags after = (bound_flags ind)[i := (bound_flags ind ! i)[col := True]]
       \<and> (Stage = SHIFTS \<and> tally < length (outerIndexPtr (K_bound ind)) \<longrightarrow>
            K_bound after
              = K_bound ind\<lparr>outerIndexPtr := (outerIndexPtr (K_bound ind))
                  [tally := outerIndexPtr (K_bound ind) ! tally + 1]\<rparr>
          \<and> bound_index after = bound_index ind)
       \<and> (Stage = NONZERO \<and> i < length (bound_index ind)
            \<and> bound_index ind ! i < length (innerIndexPtr (K_bound ind))
            \<and> bound_index ind ! i < length (valuePtr (K_bound ind)) \<longrightarrow>
            K_bound after
              = K_bound ind\<lparr>valuePtr := (valuePtr (K_bound ind))[bound_index ind ! i := 0],
                             innerIndexPtr := (innerIndexPtr (K_bound ind))[bound_index ind ! i := col]\<rparr>
          \<and> bound_index after = (bound_index ind)[i := bound_index ind ! i + 1]))"
  shows "index Stage block_row block_col ind
           = fold (\<lambda>(comp_row, comp_col).
                index_pair Stage (DoF ind * block_row + comp_row) (DoF ind * block_col + comp_col))
               (List.product [0..<DoF ind] [0..<DoF ind]) ind
       \<and> (DoF ind = 1 \<longrightarrow> index Stage row col ind = after)
       \<and> (row < length (inner_nodes ind) \<and> col < length (inner_nodes ind) \<longrightarrow>
            (interior row \<and> interior col \<and> row \<le> col \<longrightarrow> recorded_in_K_inner)
          \<and> (interior row \<and> interior col \<and> col < row \<longrightarrow> after = ind)
          \<and> (row \<noteq> col \<and> \<not> interior col \<longrightarrow> recorded_in_K_bound)
          \<and> (row \<noteq> col \<and> \<not> interior row \<and> interior col \<longrightarrow> after = ind)
          \<and> (row = col \<and> \<not> interior row \<longrightarrow> recorded_in_K_inner))"
proof -
  have visits: "index Stage block_row block_col ind
           = fold (\<lambda>(comp_row, comp_col).
                index_pair Stage (DoF ind * block_row + comp_row) (DoF ind * block_col + comp_col))
               (List.product [0..<DoF ind] [0..<DoF ind]) ind"
    by (simp add: index_def fold_product)
  have scalar: "index Stage row col ind = after" if "DoF ind = 1"
    using that by (simp add: index_def after_def)
  have inner: recorded_in_K_inner if "after = stage_inner Stage ind row col"
    unfolding recorded_in_K_inner_def that i_def tally_def
    by (cases Stage) (simp_all add: stage_inner_effect)
  have bound: recorded_in_K_bound if "after = stage_bound Stage ind row col"
    unfolding recorded_in_K_bound_def that i_def tally_def
    by (cases Stage) (simp_all add: stage_bound_effect)
  have r1: "interior row \<and> interior col \<and> row \<le> col \<longrightarrow> recorded_in_K_inner"
    by (auto intro!: inner simp: after_def index_pair_def interior_def)
  have r2: "interior row \<and> interior col \<and> col < row \<longrightarrow> after = ind"
    by (auto simp: after_def index_pair_def interior_def)
  have r3: "row \<noteq> col \<and> \<not> interior col \<longrightarrow> recorded_in_K_bound"
    by (auto intro!: bound simp: after_def index_pair_def interior_def)
  have r4: "row \<noteq> col \<and> \<not> interior row \<and> interior col \<longrightarrow> after = ind"
    by (auto simp: after_def index_pair_def interior_def)
  have r5: "row = col \<and> \<not> interior row \<longrightarrow> recorded_in_K_inner"
    by (auto intro!: inner simp: after_def index_pair_def interior_def)
  show ?thesis using visits scalar r1 r2 r3 r4 r5 by blast
qed

theorem index_routes_by_stencil_rules_witness:
  "outerIndexPtr (K_inner (index_pair SHIFTS 0 1 counting_indexator)) = [0, 1, 0, 0, 0]
   \<and> K_bound (index_pair SHIFTS 0 1 counting_indexator) = K_bound counting_indexator
   \<and> index_pair SHIFTS 1 0 counting_indexator = counting_indexator
   \<and> outerIndexPtr (K_bound (index_pair SHIFTS 0 2 counting_indexator)) = [0, 1, 0, 0, 0]
   \<and> K_inner (index_pair SHIFTS 0 2 counting_indexator) = K_inner counting_indexator
   \<and> index_pair SHIFTS 2 0 counting_indexator = counting_indexator
   \<and> outerIndexPtr (K_inner (index_pair SHIFTS 2 2 counting_indexator)) = [0, 0, 0, 1, 0]
   \<and> innerIndexPtr (K_inner (index_pair NONZERO 0 1 (writing_indexator 0))) = [1, 9, 9, 9, 9]
   \<and> inner_index (index_pair NONZERO 0 1 (writing_indexator 0)) = [1, 2]
   \<and> index_pair NONZERO 1 0 (writing_indexator 0) = writing_indexator 0
   \<and> innerIndexPtr (K_bound (index_pair NONZERO 0 2 (writing_indexator 0))) = [2, 9, 9, 9, 9, 9]
   \<and> index_pair NONZERO 2 0 (writing_indexator 1) = writing_indexator 1
   \<and> innerIndexPtr (K_inner (index_pair NONZERO 2 2 (writing_indexator 1))) = [9, 9, 9, 2, 9]
   \<and> outerIndexPtr (K_inner (index SHIFTS 0 0 counting_indexator)) = [0, 2, 1, 0, 0]
   \<and> outerIndexPtr (K_bound (index SHIFTS 0 1 counting_indexator)) = [0, 2, 2, 0, 0]
   \<and> innerIndexPtr (K_inner (index NONZERO 0 0 (writing_indexator 0))) = [0, 1, 1, 9, 9]
   \<and> innerIndexPtr (K_bound (index NONZERO 0 1 (writing_indexator 0))) = [2, 3, 2, 3, 9, 9]"
proof -
  have c: "DoF counting_indexator = 2" "node_shift counting_indexator = 0"
    "inner_nodes counting_indexator = [True, True, False, False]"
    "inner_flags counting_indexator = [[False, False, False, False], [False, False, False, False]]"
    "bound_flags counting_indexator = [[False, False, False, False], [False, False, False, False]]"
    "outerIndexPtr (K_inner counting_indexator) = [0, 0, 0, 0, 0]"
    "outerIndexPtr (K_bound counting_indexator) = [0, 0, 0, 0, 0]"
    by code_simp+
  have w0: "DoF (writing_indexator 0) = 2" "node_shift (writing_indexator 0) = 0"
    "inner_nodes (writing_indexator 0) = [True, True, False, False]"
    "innerIndexPtr (K_inner (writing_indexator 0)) = [9, 9, 9, 9, 9]"
    "innerIndexPtr (K_bound (writing_indexator 0)) = [9, 9, 9, 9, 9, 9]"
    "valuePtr (K_inner (writing_indexator 0)) = [1, 1, 1, 1, 1]"
    "valuePtr (K_bound (writing_indexator 0)) = [1, 1, 1, 1, 1, 1]"
    "inner_flags (writing_indexator 0) = [[False, False, False, False], [False, False, False, False]]"
    "bound_flags (writing_indexator 0) = [[False, False, False, False], [False, False, False, False]]"
    "inner_index (writing_indexator 0) = [0, 2]" "bound_index (writing_indexator 0) = [0, 2]"
    by code_simp+
  have w1: "DoF (writing_indexator (Suc 0)) = 2" "node_shift (writing_indexator (Suc 0)) = 0"
    "inner_nodes (writing_indexator (Suc 0)) = [True, True, False, False]"
    "innerIndexPtr (K_inner (writing_indexator (Suc 0))) = [9, 9, 9, 9, 9]"
    "innerIndexPtr (K_bound (writing_indexator (Suc 0))) = [9, 9, 9, 9, 9, 9]"
    "valuePtr (K_inner (writing_indexator (Suc 0))) = [1, 1, 1, 1, 1]"
    "valuePtr (K_bound (writing_indexator (Suc 0))) = [1, 1, 1, 1, 1, 1]"
    "inner_flags (writing_indexator (Suc 0)) = [[False, False, False, False], [False, False, False, False]]"
    "bound_flags (writing_indexator (Suc 0)) = [[False, False, False, False], [False, False, False, False]]"
    "inner_index (writing_indexator (Suc 0)) = [3, 4]" "bound_index (writing_indexator (Suc 0)) = [4, 5]"
    by code_simp+
  from index_routes_by_stencil_rules[where ind = counting_indexator and Stage = SHIFTS and row = 0 and col = 1]
  have s1: "outerIndexPtr (K_inner (index_pair SHIFTS 0 1 counting_indexator)) = [0, 1, 0, 0, 0]"
    "K_bound (index_pair SHIFTS 0 1 counting_indexator) = K_bound counting_indexator"
    by (simp_all add: c)
  from index_routes_by_stencil_rules[where ind = counting_indexator and Stage = SHIFTS and row = 1 and col = 0]
  have s2: "index_pair SHIFTS 1 0 counting_indexator = counting_indexator"
    by (simp add: c)
  from index_routes_by_stencil_rules[where ind = counting_indexator and Stage = SHIFTS and row = 0 and col = 2]
  have s3: "outerIndexPtr (K_bound (index_pair SHIFTS 0 2 counting_indexator)) = [0, 1, 0, 0, 0]"
    "K_inner (index_pair SHIFTS 0 2 counting_indexator) = K_inner counting_indexator"
    by (simp_all add: c)
  from index_routes_by_stencil_rules[where ind = counting_indexator and Stage = SHIFTS and row = 2 and col = 0]
  have s4: "index_pair SHIFTS 2 0 counting_indexator = counting_indexator"
    by (simp add: c)
  from index_routes_by_stencil_rules[where ind = counting_indexator and Stage = SHIFTS and row = 2 and col = 2]
  have s5: "outerIndexPtr (K_inner (index_pair SHIFTS 2 2 counting_indexator)) = [0, 0, 0, 1, 0]"
    by (simp add: c)
  from index_routes_by_stencil_rules[where ind = "writing_indexator 0" and Stage = NONZERO and row = 0 and col = 1]
  have n1: "innerIndexPtr (K_inner (index_pair NONZERO 0 1 (writing_indexator 0))) = [1, 9, 9, 9, 9]"
    "inner_index (index_pair NONZERO 0 1 (writing_indexator 0)) = [1, 2]"
    by (simp_all add: w0)
  from index_routes_by_stencil_rules[where ind = "writing_indexator 0" and Stage = NONZERO and row = 1 and col = 0]
  have n2: "index_pair NONZERO 1 0 (writing_indexator 0) = writing_indexator 0"
    by (simp add: w0)
  from index_routes_by_stencil_rules[where ind = "writing_indexator 0" and Stage = NONZERO and row = 0 and col = 2]
  have n3: "innerIndexPtr (K_bound (index_pair NONZERO 0 2 (writing_indexator 0))) = [2, 9, 9, 9, 9, 9]"
    by (simp add: w0)
  from index_routes_by_stencil_rules[where ind = "writing_indexator 1" and Stage = NONZERO and row = 2 and col = 0]
  have n4: "index_pair NONZERO 2 0 (writing_indexator 1) = writing_indexator 1"
    by (simp add: w1)
  from index_routes_by_stencil_rules[where ind = "writing_indexator 1" and Stage = NONZERO and row = 2 and col = 2]
  have n5: "innerIndexPtr (K_inner (index_pair NONZERO 2 2 (writing_indexator 1))) = [9, 9, 9, 2, 9]"
    by (simp add: w1)
  have blocks:
    "outerIndexPtr (K_inner (index SHIFTS 0 0 counting_indexator)) = [0, 2, 1, 0, 0]"
    "outerIndexPtr (K_bound (index SHIFTS 0 1 counting_indexator)) = [0, 2, 2, 0, 0]"
    "innerIndexPtr (K_inner (index NONZERO 0 0 (writing_indexator 0))) = [0, 1, 1, 9, 9]"
    "innerIndexPtr (K_bound (index NONZERO 0 1 (writing_indexator 0))) = [2, 3, 2, 3, 9, 9]"
    by code_simp+
  show ?thesis
    using s1 s2 s3 s4 s5 n1 n2 n3 n4 n5 blocks by (intro conjI)
qed

subsection \<open>The 1D stationary solver\<close>

lemma fold_preserves:
  assumes "P s" and "\<And>x s. P s \<Longrightarrow> P (g x s)"
  shows "P (fold g xs s)"
  using assms(1) by (induction xs arbitrary: s) (auto intro: assms(2))

lemma length_fold_update:
  "length (fold (\<lambda>x out. out[h x out := v x out]) xs s) = length s"
  by (rule fold_preserves[where P="\<lambda>t. length t = length s"]) simp_all

lemma length_portrait_counts [simp]:
  "length (portrait_counts m bfk nl out) = length out"
  unfolding portrait_counts_def
  apply (rule fold_preserves[where P="\<lambda>t. length t = length out"], simp)
  apply (simp only: Let_def)
  apply (rule fold_preserves, simp)
  apply simp
  done

lemma length_outer_prepare_memory [simp]:
  "length (outerIndexPtr (prepare_memory K)) = length (outerIndexPtr K)"
  by (simp add: prepare_memory_def Let_def length_fold_update)

lemma rows_prepare_memory [simp]: "rows (prepare_memory K) = rows K"
  by (simp add: rows_def)

lemma length_outer_create_matrix_portrait [simp]:
  "length (outerIndexPtr (create_matrix_portrait m K nt bfk nl)) = length (outerIndexPtr K)"
  unfolding create_matrix_portrait_def Let_def
  apply (rule fold_preserves[where P="\<lambda>t. length (outerIndexPtr t) = length (outerIndexPtr K)"])
   apply (simp add: length_fold_update)
  apply (rule fold_preserves)
   apply simp
  apply simp
  done

lemma length_outer_coeffRef [simp]:
  "length (outerIndexPtr (snd (coeffRef K row col))) = length (outerIndexPtr K)"
  by (simp add: coeffRef_def Let_def)

lemma length_outer_coeffRef_add [simp]:
  "length (outerIndexPtr (coeffRef_add row col v K)) = length (outerIndexPtr K)"
  by (simp add: coeffRef_add_def coeffRef_def Let_def)

lemma length_outer_mesh_run_LOCAL:
  assumes "\<And>e i j K. length (outerIndexPtr (cb e i j K)) = length (outerIndexPtr K)"
  shows "length (outerIndexPtr (mesh_run_LOCAL m cb K)) = length (outerIndexPtr K)"
  unfolding mesh_run_LOCAL_def
  apply (rule fold_preserves[where P="\<lambda>t. length (outerIndexPtr t) = length (outerIndexPtr K)"], simp)
  apply (rule fold_preserves, simp)
  apply (simp split: option.splits)
  apply (intro allI impI)
  apply (rule fold_preserves, simp)
  apply (simp add: assms)
  done

lemma length_outer_mesh_run_NONLOCAL:
  assumes "\<And>e e' i j K. length (outerIndexPtr (cb e e' i j K)) = length (outerIndexPtr K)"
  shows "length (outerIndexPtr (mesh_run_NONLOCAL m cb K)) = length (outerIndexPtr K)"
  unfolding mesh_run_NONLOCAL_def
  apply (rule fold_preserves[where P="\<lambda>t. length (outerIndexPtr t) = length (outerIndexPtr K)"], simp)
  apply (rule fold_preserves, simp)
  apply (simp split: option.splits)
  apply (intro allI impI)
  apply (rule fold_preserves, simp)
  apply (rule fold_preserves, simp)
  apply (simp add: assms)
  done

lemma length_outer_calc_matrix [simp]:
  "length (outerIndexPtr (calc_matrix m K nt bfk rl rn nl phi)) = length (outerIndexPtr K)"
proof -
  let ?K1 = "(if nt
                then fold (\<lambda>node Kc.
                       fold (\<lambda>entry Kd.
                         case entry of
                           Some (e, i) \<Rightarrow>
                             coeffRef_add node (nodes_count_1d m) (integrate_basic m e i) Kd
                         | None \<Rightarrow> Kd)
                         (node_elements m node) (snd (coeffRef Kc node (nodes_count_1d m))))
                       [0..<nodes_count_1d m] K
                else K)"
  have 1: "length (outerIndexPtr ?K1) = length (outerIndexPtr K)"
    apply (cases nt; simp)
    apply (rule fold_preserves[where P="\<lambda>t. length (outerIndexPtr t) = length (outerIndexPtr K)"], simp)
    subgoal for x s
      apply (rule fold_preserves[where P="\<lambda>t. length (outerIndexPtr t) = length (outerIndexPtr K)"])
       apply simp
      apply (simp split: option.splits)
      done
    done
  show ?thesis
    unfolding calc_matrix_def Let_def
    apply (cases nl; simp only: if_True if_False)
     apply (subst length_outer_mesh_run_NONLOCAL, simp)
     apply (subst length_outer_mesh_run_LOCAL, simp)
     apply (rule 1)
    apply (subst length_outer_mesh_run_LOCAL, simp)
    apply (rule 1)
    done
qed

lemma rows_create_matrix [simp]:
  "rows (create_matrix m K nt bc rl rn nl phi) = rows K"
  by (simp add: create_matrix_def rows_def Let_def)

lemma length_integrate_right_part_1d [simp]:
  "length (integrate_right_part_1d m f rp) = length f"
  unfolding integrate_right_part_1d_def
  by (rule fold_preserves[where P="\<lambda>s. length s = length f"], simp,
      rule fold_preserves, simp, simp split: option.splits)

lemma length_boundary_condition_second_kind [simp]:
  "length (boundary_condition_second_kind m f bc) = length f"
  by (simp add: boundary_condition_second_kind_def)

lemma length_boundary_condition_first_kind_1d [simp]:
  "length (boundary_condition_first_kind_1d m f bc ([], [])) = length f"
  by (simp add: boundary_condition_first_kind_1d_def)

lemma stationary_system_size:
  "rows (fst (stationary_system m ps bc rp phi)) = nodes_count_1d m + bool_to_nat (neumann_task_1d bc)"
  "length (snd (stationary_system m ps bc rp phi)) = nodes_count_1d m + bool_to_nat (neumann_task_1d bc)"
  by (simp_all add: stationary_system_def Let_def
      rows_def[of "\<lparr>outerIndexPtr = _, innerIndexPtr = _, valuePtr = _\<rparr>"])

text \<open>
  Claim C9. Let the linear solver return as many values as the system has unknowns. Then
  \<open>stationary\<close> throws exactly on the test of the boundary data at its start, and in every
  other case it returns a vector \<open>t\<close> of exactly \<open>nodes_count\<close> values, which are the first
  \<open>nodes_count\<close> values of the solver's vector, in order. The system it builds has
  \<open>nodes_count\<close> unknowns, and one more when both boundary conditions are of the second kind;
  there the solver's vector is \<open>t\<close> followed by one more value, the unknown number \<open>nodes_count\<close>,
  which is the one cut off; in the other cases \<open>t\<close> is the whole vector of the solver.
\<close>

theorem stationary_returns_nodes_count_values:
  assumes solver: "\<And>K f. length (solve K f) = length f"
  shows "(stationary m solve ps bc rp phi = Inl DomainError
            \<longleftrightarrow> neumann_task_1d bc \<and> snd (fst bc) + snd (snd bc) > 1 / 100000)
       \<and> (stationary m solve ps bc rp phi \<noteq> Inl DomainError \<longrightarrow>
            (\<exists>t. stationary m solve ps bc rp phi = Inr t \<and> length t = nodes_count_1d m
               \<and> (\<forall>i < nodes_count_1d m.
                     t ! i = solve (fst (stationary_system m ps bc rp phi))
                                   (snd (stationary_system m ps bc rp phi)) ! i)
               \<and> (neumann_task_1d bc \<longrightarrow>
                     solve (fst (stationary_system m ps bc rp phi))
                           (snd (stationary_system m ps bc rp phi))
                       = t @ [solve (fst (stationary_system m ps bc rp phi))
                                    (snd (stationary_system m ps bc rp phi)) ! nodes_count_1d m])
               \<and> (\<not> neumann_task_1d bc \<longrightarrow>
                     solve (fst (stationary_system m ps bc rp phi))
                           (snd (stationary_system m ps bc rp phi)) = t)))
       \<and> rows (fst (stationary_system m ps bc rp phi))
            = nodes_count_1d m + bool_to_nat (neumann_task_1d bc)
       \<and> length (snd (stationary_system m ps bc rp phi))
            = nodes_count_1d m + bool_to_nat (neumann_task_1d bc)
       \<and> (neumann_task_1d bc \<longrightarrow>
            length (solve (fst (stationary_system m ps bc rp phi))
                          (snd (stationary_system m ps bc rp phi)))
              = nodes_count_1d m + 1)"
proof -
  let ?K = "fst (stationary_system m ps bc rp phi)"
  let ?f = "snd (stationary_system m ps bc rp phi)"
  let ?n = "nodes_count_1d m"
  note size = stationary_system_size[of m ps bc rp phi]
  have len: "length (solve ?K ?f) = ?n + bool_to_nat (neumann_task_1d bc)"
    using size(2) by (simp add: solver)
  have throws: "stationary m solve ps bc rp phi = Inl DomainError
            \<longleftrightarrow> neumann_task_1d bc \<and> snd (fst bc) + snd (snd bc) > 1 / 100000"
    by (auto simp: stationary_def split: prod.splits)
  have returns: "stationary m solve ps bc rp phi = Inr (take ?n (solve ?K ?f))"
    if "stationary m solve ps bc rp phi \<noteq> Inl DomainError"
    using that by (auto simp: stationary_def split: prod.splits if_splits)
  have l: "length (take ?n (solve ?K ?f)) = ?n" using len by simp
  have v: "\<forall>i < ?n. take ?n (solve ?K ?f) ! i = solve ?K ?f ! i" by simp
  have cut: "solve ?K ?f = take ?n (solve ?K ?f) @ [solve ?K ?f ! ?n]" if "neumann_task_1d bc"
  proof -
    have "length (solve ?K ?f) = Suc ?n" using len that by (simp add: bool_to_nat_def)
    then show ?thesis by (metis lessI take_Suc_conv_app_nth take_all order_refl)
  qed
  have whole: "solve ?K ?f = take ?n (solve ?K ?f)" if "\<not> neumann_task_1d bc"
    using len that by (simp add: bool_to_nat_def)
  have n1: "length (solve ?K ?f) = ?n + 1" if "neumann_task_1d bc"
    using len that by (simp add: bool_to_nat_def)
  show ?thesis
    using throws returns l v cut whole size n1 by (intro conjI impI) blast+
qed

theorem stationary_returns_nodes_count_values_witness:
  "(\<forall>K f. length ((\<lambda>K f. f) (K :: sparse_matrix) (f :: real list)) = length f)
   \<and> stationary (two_segments linear_gauss1) (\<lambda>K f. f) unit_parameters
        ((SECOND_KIND, 1), (SECOND_KIND, - 1)) (\<lambda>x. 0) (\<lambda>x y. 0) = Inr [1, 0, - 1]
   \<and> snd (stationary_system (two_segments linear_gauss1) unit_parameters
            ((SECOND_KIND, 1), (SECOND_KIND, - 1)) (\<lambda>x. 0) (\<lambda>x y. 0)) = [1, 0, - 1, 0]"
proof -
  have n: "neumann_task_1d ((SECOND_KIND, 1), (SECOND_KIND, - 1))"
    by (simp add: neumann_task_1d_def)
  have k: "nodes_count_1d (two_segments linear_gauss1) = 3"
    by (simp add: two_segments_def)
  have f: "snd (stationary_system (two_segments linear_gauss1) unit_parameters
            ((SECOND_KIND, 1), (SECOND_KIND, - 1)) (\<lambda>x. 0) (\<lambda>x y. 0)) = [1, 0, - 1, 0]"
    by code_simp
  have ok: "stationary (two_segments linear_gauss1) (\<lambda>K f. f) unit_parameters
        ((SECOND_KIND, 1), (SECOND_KIND, - 1)) (\<lambda>x. 0) (\<lambda>x y. 0) \<noteq> Inl DomainError"
    by (simp add: stationary_def neumann_task_1d_def split: prod.splits)
  from stationary_returns_nodes_count_values
         [of "\<lambda>K f. f" "two_segments linear_gauss1" unit_parameters
             "((SECOND_KIND, 1), (SECOND_KIND, - 1))" "\<lambda>x. 0" "\<lambda>x y. 0"] ok
  obtain t where t: "stationary (two_segments linear_gauss1) (\<lambda>K f. f) unit_parameters
        ((SECOND_KIND, 1), (SECOND_KIND, - 1)) (\<lambda>x. 0) (\<lambda>x y. 0) = Inr t"
    "[1, 0, - 1, 0] = t @ [[1, 0, - 1, 0] ! 3 :: real]"
    by (auto simp: n k f)
  from t(2) have "t = [1, 0, - 1]" by simp
  with t(1) f show ?thesis by simp
qed

text \<open>
  Claim C2 (the code departs from it). With both boundary conditions of the second kind and
  the fluxes \<open>-1\<close> and \<open>-1\<close>, whose sum \<open>-2\<close> has absolute value far above \<open>10\<^sup>-\<^sup>5\<close>, \<open>stationary\<close>
  does not throw: the test compares the signed sum with \<open>10\<^sup>-\<^sup>5\<close>, so it assembles the system
  and returns what the solver gives.
\<close>

theorem stationary_accepts_negative_net_flux:
  "stationary m solve ps ((SECOND_KIND, - 1), (SECOND_KIND, - 1)) rp phi
     = Inr (take (nodes_count_1d m)
         (solve (fst (stationary_system m ps ((SECOND_KIND, - 1), (SECOND_KIND, - 1)) rp phi))
                (snd (stationary_system m ps ((SECOND_KIND, - 1), (SECOND_KIND, - 1)) rp phi))))"
  by (simp add: stationary_def neumann_task_1d_def split: prod.splits)

text \<open>
  Claim C3 (the code departs from it in the 1D path). Two linear elements, a first-kind
  condition at the left end: after the assembly the row of node 0 in \<open>K_inner\<close> stores the
  columns 0 and 1 with the values 2 and \<open>-2\<close>. It is not an identity row.
\<close>

theorem first_kind_row_not_identity_1d:
  "let K = fst (stationary_system (two_segments linear_gauss1) unit_parameters
                  ((FIRST_KIND, 1), (SECOND_KIND, 0)) (\<lambda>x. 0) (\<lambda>x y. 0))
   in row_columns K 0 = [0, 1] \<and> coeff K 0 0 = 2 \<and> coeff K 0 1 = - 2"
  by code_simp

subsection \<open>The mass rule\<close>

lemma upt_0_2: "[0..<2] = [0, 1]"
  by (simp add: upt_rec)

lemma lessThan_3: "{..<(3::nat)} = {0, 1, 2}"
  by auto

text \<open>
  Claim C4 (the code departs from it). \<open>integrate_basic_pair\<close> runs its loop up to the node
  count of the element, not up to the node count of the quadrature. For the linear element
  (two nodes) with the three-point Gauss rule the third quadrature node is left out, and the
  rule for the pair \<open>(1, 1)\<close> is smaller than the quadrature sum over all quadrature nodes.
\<close>

theorem integrate_basic_pair_misses_quadrature_nodes:
  "integrate_basic_pair (two_segments linear_gauss3) 0 1 1
     < mass_quadrature (two_segments linear_gauss3) 0 1 1"
proof -
  have "0 < (1 + sqrt (3 / 5)) * (5 + 5 * sqrt (3 / 5))"
    by (intro mult_pos_pos add_pos_nonneg) simp_all
  then show ?thesis
    by (simp add: integrate_basic_pair_def mass_quadrature_def two_segments_def linear_gauss3_def
        upt_0_2 lessThan_3 gauss3_node_def)
qed

subsection \<open>The geometry tables at the quadrature nodes\<close>


lemma length_fold_block [simp]:
  "length (fold (\<lambda>q l. l[s + q := V q (l ! (s + q))]) [0..<k] l) = length l"
  by (induction k) simp_all


lemma length_blocks [simp]: "length (blocks s m V n l) = length l"
  by (induction n) (simp_all add: blocks_def)


lemma running_sum_mono:
  fixes s m :: "nat \<Rightarrow> nat"
  assumes rs: "\<forall>el < n. s (el + 1) = s el + m el" and ab: "a \<le> b" and bn: "b \<le> n"
  shows "s a \<le> s b"
  using ab bn
proof (induction rule: dec_induct)
  case base
  then show ?case by simp
next
  case (step k)
  then have "s (Suc k) = s k + m k" using rs by simp
  with step show ?case by simp
qed





lemma fold_concat: "fold f (concat xss) = fold (fold f) xss"
  by (induction xss) simp_all

lemma at_index_Inl [simp]: "at_index k g (Inl e) = Inl e"
  by (simp add: at_index_def)

lemma fold_at_index_Inl [simp]: "fold (\<lambda>x. at_index (k x) (g x)) xs (Inl e) = Inl e"
  by (induction xs) simp_all























subsection \<open>First-kind values on overlapping boundary groups\<close>

text \<open>
  Claim C5 (the code departs from it). The node 1 lies on both boundary groups; the first group
  gives it the value 0 and the second group the value 5. The vector \<open>x\<close> holds 5 at the node 1:
  the test \<open>x[node] == 0\<close> takes the value 0 written by the first group for "not yet written", and
  the second group writes over it.
\<close>

theorem first_kind_zero_value_is_overwritten:
  "first_kind_values 1 corner_mesh corner_conditions 3 = [0, 5, 5]"
  by code_simp

subsection \<open>Reading SU2 elements and writing VTK cells\<close>

lemma length_scatter [simp]:
  "length (fold (\<lambda>(k, v) el. el[k := v]) kvs el) = length el"
  by (induction kvs arbitrary: el) auto









text \<open>
  A node number above the largest value of the index type is not read: the largest value is
  stored, the fail bit is set and the slots of the element that follow stay 0.
\<close>

lemma read_element_out_of_range:
  "index_max < n0 \<Longrightarrow>
   read_element index_max [0, 1, 2] \<lparr>tokens = Number n0 # rest, failbit = False\<rparr>
     = ([index_max, 0, 0], \<lparr>tokens = rest, failbit = True\<rparr>)"
  by (simp add: read_element_def get_number_def)



section \<open>The stored triangle of the stiffness matrix\<close>

subsection \<open>The indexator on its inner matrix\<close>

lemma consts_stage_inner [simp]: "consts_of (stage_inner Stage ind row col) = consts_of ind"
  by (simp add: consts_of_def stage_inner_def split: prod.splits)

lemma consts_stage_bound [simp]: "consts_of (stage_bound Stage ind row col) = consts_of ind"
  by (simp add: consts_of_def stage_bound_def split: prod.splits)

lemma inner_part_stage_bound [simp]: "inner_part (stage_bound Stage ind row col) = inner_part ind"
  by (simp add: inner_part_def stage_bound_def split: prod.splits)

lemma inner_part_stage_inner:
  "consts_of ind = (d, inodes, sh) \<Longrightarrow>
   inner_part (stage_inner Stage ind row col) = stage d sh Stage (inner_part ind) row col"
  by (auto simp: inner_part_def stage_inner_def consts_of_def split: prod.splits)

lemma index_pair_inner:
  assumes "consts_of ind = (d, inodes, sh)"
  shows "consts_of (index_pair Stage row col ind) = (d, inodes, sh)"
    and "inner_part (index_pair Stage row col ind)
         = (if to_inner inodes (row, col) then stage d sh Stage (inner_part ind) row col
            else inner_part ind)"
  using assms inner_part_stage_inner[OF assms]
  by (auto simp: index_pair_def to_inner_def consts_of_def[of ind])

lemma fold_index_pair_inner:
  assumes "consts_of ind = (d, inodes, sh)"
  shows "consts_of (fold (\<lambda>p. index_pair Stage (fst p) (snd p)) ps ind) = (d, inodes, sh)
       \<and> inner_part (fold (\<lambda>p. index_pair Stage (fst p) (snd p)) ps ind)
           = stage_pairs d sh Stage (filter (to_inner inodes) ps) (inner_part ind)"
  using assms
proof (induction ps arbitrary: ind)
  case Nil
  then show ?case by (simp add: stage_pairs_def)
next
  case (Cons p ps)
  from index_pair_inner[OF Cons.prems, of Stage "fst p" "snd p"]
  have 1: "consts_of (index_pair Stage (fst p) (snd p) ind) = (d, inodes, sh)"
    and 2: "inner_part (index_pair Stage (fst p) (snd p) ind)
         = (if to_inner inodes p then stage d sh Stage (inner_part ind) (fst p) (snd p)
            else inner_part ind)" by simp_all
  from Cons.IH[OF 1] show ?case
    by (simp add: 2 stage_pairs_def)
qed

lemma index_as_pairs:
  "DoF ind = d \<Longrightarrow>
   index Stage block_row block_col ind
     = fold (\<lambda>p. index_pair Stage (fst p) (snd p)) (block_pairs d block_row block_col) ind"
  by (simp add: index_def block_pairs_def fold_concat fold_map comp_def)

lemma fold_index_as_pairs:
  assumes "consts_of ind = (d, inodes, sh)"
  shows "fold (index Stage nd) bcs ind
     = fold (\<lambda>p. index_pair Stage (fst p) (snd p)) (concat (map (block_pairs d nd) bcs)) ind"
  using assms
proof (induction bcs arbitrary: ind)
  case Nil
  then show ?case by simp
next
  case (Cons bc bcs)
  have d: "DoF ind = d" using Cons.prems by (simp add: consts_of_def)
  have c: "consts_of (index Stage nd bc ind) = (d, inodes, sh)"
    using fold_index_pair_inner[OF Cons.prems] by (simp add: index_as_pairs[OF d])
  show ?case
    using Cons.IH[OF c] by (simp add: index_as_pairs[OF d])
qed

lemma node_visits:
  "fold (\<lambda>eL ind.
            case Theory of
              LOCAL \<Rightarrow>
                fold (\<lambda>jL. index Stage nd (node_number (proxy_mesh proxy) eL jL))
                  [0..<nodes_count (element_2d (proxy_mesh proxy) eL)] ind
            | NONLOCAL \<Rightarrow>
                fold (\<lambda>eNL.
                  fold (\<lambda>jNL. index Stage nd (node_number (proxy_mesh proxy) eNL jNL))
                    [0..<nodes_count (element_2d (proxy_mesh proxy) eNL)])
                  (neighbors proxy eL) ind)
            (nodes_elements_map proxy nd) ind
   = fold (index Stage nd) (visited Theory proxy nd) ind"
  by (cases Theory) (simp_all add: visited_def fold_concat fold_map comp_def)

lemma fill_consts [simp]: "consts_of (fill nd ind) = consts_of ind"
proof -
  have "consts_of (fold (fill_component nd) is ind) = consts_of ind" for "is"
    by (induction "is" arbitrary: ind) (simp_all add: fill_component_def consts_of_def)
  then show ?thesis by (simp add: fill_def)
qed

lemma fill_inner_part:
  assumes "consts_of ind = (d, inodes, sh)"
  shows "inner_part (fill nd ind) = fill_inner d sh nd (inner_part ind)"
proof -
  have "consts_of ind = (d, inodes, sh) \<Longrightarrow>
        consts_of (fold (fill_component nd) is ind) = (d, inodes, sh) \<and>
        inner_part (fold (fill_component nd) is ind)
        = (K_inner ind, fold (\<lambda>i fl. fl[i := fill_from (d * nd) (fl ! i)]) is (inner_flags ind),
           fold (\<lambda>i idx. idx[i := outerIndexPtr (K_inner ind) ! (d * (nd - sh) + i)]) is (inner_index ind))"
    for "is"
    by (induction "is" arbitrary: ind) (auto simp: fill_component_def consts_of_def inner_part_def)
  from this[OF assms, of "[0..<d]"] assms show ?thesis
    by (simp add: fill_def fill_inner_def inner_part_def consts_of_def)
qed

lemma mesh_index_inner:
  "fst (mesh_index d Stage Theory proxy Ki Kb inodes)
     = fst (inner_pass d (first_node proxy) Stage (node_pairs d Theory proxy inodes)
              [first_node proxy..<last_node proxy]
              (Ki, replicate d (replicate (length inodes) False), replicate d 0))"
proof -
  let ?sh = "first_node proxy"
  let ?step = "\<lambda>nd ind. fold (index Stage nd) (visited Theory proxy nd) (fill nd ind)"
  have step: "consts_of (?step nd ind) = (d, inodes, ?sh) \<and>
      inner_part (?step nd ind)
        = stage_pairs d ?sh Stage (node_pairs d Theory proxy inodes nd)
            (fill_inner d ?sh nd (inner_part ind))"
    if c: "consts_of ind = (d, inodes, ?sh)" for nd ind
  proof -
    have c': "consts_of (fill nd ind) = (d, inodes, ?sh)" using c by simp
    show ?thesis
      using fold_index_pair_inner[OF c', of Stage]
      by (simp add: fold_index_as_pairs[OF c'] node_pairs_def fill_inner_part[OF c])
  qed
  have run: "consts_of (fold ?step nodes ind) = (d, inodes, ?sh) \<and>
      inner_part (fold ?step nodes ind)
        = inner_pass d ?sh Stage (node_pairs d Theory proxy inodes) nodes (inner_part ind)"
    if "consts_of ind = (d, inodes, ?sh)" for nodes ind
    using that
  proof (induction nodes arbitrary: ind)
    case Nil
    then show ?case by (simp add: inner_pass_def)
  next
    case (Cons nd nodes)
    from step[OF Cons.prems, of nd] Cons.IH[of "?step nd ind"]
    show ?case by (simp add: inner_pass_def)
  qed
  have c0: "consts_of (new_indexator d Ki Kb inodes ?sh) = (d, inodes, ?sh)"
    by (simp add: consts_of_def new_indexator_def)
  have i0: "inner_part (new_indexator d Ki Kb inodes ?sh)
      = (Ki, replicate d (replicate (length inodes) False), replicate d 0)"
    by (simp add: inner_part_def new_indexator_def)
  have k: "K_inner x = fst (inner_part x)" for x
    by (simp add: inner_part_def)
  from run[OF c0, of "[first_node proxy..<last_node proxy]"]
  have "inner_part (fold ?step [first_node proxy..<last_node proxy] (new_indexator d Ki Kb inodes ?sh))
      = inner_pass d ?sh Stage (node_pairs d Theory proxy inodes) [first_node proxy..<last_node proxy]
          (Ki, replicate d (replicate (length inodes) False), replicate d 0)"
    by (simp add: i0)
  then show ?thesis
    by (simp add: mesh_index_def node_visits Let_def k)
qed

subsection \<open>The two passes as runs over the fresh pairs\<close>

lemma set_flag_id: "fl ! (fst p mod d) ! snd p \<Longrightarrow> set_flag d fl p = fl"
proof -
  assume a: "fl ! (fst p mod d) ! snd p"
  have "(fl ! (fst p mod d))[snd p := True] = fl ! (fst p mod d)"
    using a by (cases "snd p < length (fl ! (fst p mod d))") (simp_all add: list_update_same_conv list_update_beyond)
  then show ?thesis by (simp add: set_flag_def)
qed

lemma stage_pairs_SHIFTS:
  "stage_pairs d sh SHIFTS ps (K, fl, idx)
     = (K\<lparr>outerIndexPtr := fold (count_event d sh) (fresh d fl ps) (outerIndexPtr K)\<rparr>,
        fold (\<lambda>p fl. set_flag d fl p) ps fl, idx)"
proof (induction ps arbitrary: K fl)
  case Nil
  then show ?case by (simp add: stage_pairs_def)
next
  case (Cons p ps)
  show ?case
  proof (cases "fl ! (fst p mod d) ! snd p")
    case True
    then have "stage d sh SHIFTS (K, fl, idx) (fst p) (snd p) = (K, fl, idx)"
      by (simp add: stage_def)
    with True Cons.IH[of K fl] show ?thesis
      by (simp add: stage_pairs_def set_flag_id)
  next
    case False
    then have "stage d sh SHIFTS (K, fl, idx) (fst p) (snd p)
        = (K\<lparr>outerIndexPtr := count_event d sh p (outerIndexPtr K)\<rparr>, set_flag d fl p, idx)"
      by (simp add: stage_def count_event_def set_flag_def Let_def)
    with False Cons.IH[of "K\<lparr>outerIndexPtr := count_event d sh p (outerIndexPtr K)\<rparr>" "set_flag d fl p"]
    show ?thesis
      by (simp add: stage_pairs_def)
  qed
qed

lemma stage_pairs_NONZERO:
  "\<exists>vals. stage_pairs d sh NONZERO ps (K, fl, idx)
     = (K\<lparr>valuePtr := vals,
          innerIndexPtr := fst (fold (write_event d) (fresh d fl ps) (innerIndexPtr K, idx))\<rparr>,
        fold (\<lambda>p fl. set_flag d fl p) ps fl,
        snd (fold (write_event d) (fresh d fl ps) (innerIndexPtr K, idx)))"
proof (induction ps arbitrary: K fl idx)
  case Nil
  have "K = K\<lparr>valuePtr := valuePtr K, innerIndexPtr := innerIndexPtr K\<rparr>" by simp
  then show ?case by (auto simp: stage_pairs_def intro: exI[of _ "valuePtr K"])
next
  case (Cons p ps)
  show ?case
  proof (cases "fl ! (fst p mod d) ! snd p")
    case True
    then have "stage d sh NONZERO (K, fl, idx) (fst p) (snd p) = (K, fl, idx)"
      by (simp add: stage_def)
    with True Cons.IH[of K fl idx] show ?thesis
      by (simp add: stage_pairs_def set_flag_id)
  next
    case False
    let ?K = "K\<lparr>valuePtr := (valuePtr K)[idx ! (fst p mod d) := 0],
                  innerIndexPtr := (innerIndexPtr K)[idx ! (fst p mod d) := snd p]\<rparr>"
    let ?idx = "idx[fst p mod d := idx ! (fst p mod d) + 1]"
    from False have "stage d sh NONZERO (K, fl, idx) (fst p) (snd p) = (?K, set_flag d fl p, ?idx)"
      by (simp add: stage_def set_flag_def Let_def)
    with False Cons.IH[of ?K "set_flag d fl p" ?idx]
    show ?thesis
      by (auto simp: stage_pairs_def write_event_def)
  qed
qed

lemma inner_pass_SHIFTS:
  "\<exists>idx'. inner_pass d sh SHIFTS Q nodes (K, fl, idx)
     = (K\<lparr>outerIndexPtr := fold (count_event d sh) (concat (map snd (pass_events d Q nodes fl)))
                               (outerIndexPtr K)\<rparr>,
        pass_flags d Q nodes fl, idx')"
proof (induction nodes arbitrary: K fl idx)
  case Nil
  then show ?case by (simp add: inner_pass_def)
next
  case (Cons nd nodes)
  obtain idx1 where f: "fill_inner d sh nd (K, fl, idx) = (K, fill_flags d nd fl, idx1)"
    by (simp add: fill_inner_def fill_flags_def)
  let ?K1 = "K\<lparr>outerIndexPtr := fold (count_event d sh) (fresh d (fill_flags d nd fl) (Q nd)) (outerIndexPtr K)\<rparr>"
  let ?fl1 = "fold (\<lambda>p fl. set_flag d fl p) (Q nd) (fill_flags d nd fl)"
  from Cons.IH[of ?K1 ?fl1 idx1] obtain idx' where
    ih: "inner_pass d sh SHIFTS Q nodes (?K1, ?fl1, idx1)
     = (?K1\<lparr>outerIndexPtr := fold (count_event d sh) (concat (map snd (pass_events d Q nodes ?fl1)))
                               (outerIndexPtr ?K1)\<rparr>,
        pass_flags d Q nodes ?fl1, idx')" by blast
  have "inner_pass d sh SHIFTS Q (nd # nodes) (K, fl, idx)
      = inner_pass d sh SHIFTS Q nodes (?K1, ?fl1, idx1)"
    by (simp add: inner_pass_def f stage_pairs_SHIFTS)
  with ih show ?case by simp
qed

lemma length_write_events:
  "length (fst (fold (write_event d) E (inn, idx))) = length inn"
  "length (snd (fold (write_event d) E (inn, idx))) = length idx"
  by (induction E arbitrary: inn idx) (simp_all add: write_event_def)

lemma fill_cursor:
  "length idx = d \<Longrightarrow> fold (\<lambda>i idx. idx[i := g i]) [0..<d] idx = map g [0..<d]"
proof -
  have "k \<le> length idx \<Longrightarrow> fold (\<lambda>i idx. idx[i := g i]) [0..<k] idx = map g [0..<k] @ drop k idx" for k
  proof (induction k)
    case 0
    then show ?case by simp
  next
    case (Suc k)
    then have "drop k idx = idx ! k # drop (Suc k) idx"
      by (simp add: Cons_nth_drop_Suc)
    with Suc show ?case
      by (simp add: list_update_append)
  qed
  from this[of "length idx"] show "length idx = d \<Longrightarrow> ?thesis" by simp
qed

lemma inner_pass_NONZERO:
  assumes "length idx = d"
  shows "\<exists>vals idx'. inner_pass d sh NONZERO Q nodes (K, fl, idx)
     = (K\<lparr>valuePtr := vals,
          innerIndexPtr := fold (write_node d sh (outerIndexPtr K)) (pass_events d Q nodes fl)
                             (innerIndexPtr K)\<rparr>,
        pass_flags d Q nodes fl, idx') \<and> length idx' = d"
  using assms
proof (induction nodes arbitrary: K fl idx)
  case Nil
  have "K = K\<lparr>valuePtr := valuePtr K, innerIndexPtr := innerIndexPtr K\<rparr>" by simp
  with Nil show ?case by (auto simp: inner_pass_def intro: exI[of _ "valuePtr K"])
next
  case (Cons nd nodes)
  let ?idx1 = "row_starts d sh (outerIndexPtr K) nd"
  let ?fl0 = "fill_flags d nd fl"
  let ?E = "fresh d ?fl0 (Q nd)"
  let ?fl1 = "fold (\<lambda>p fl. set_flag d fl p) (Q nd) ?fl0"
  have f: "fill_inner d sh nd (K, fl, idx) = (K, ?fl0, ?idx1)"
    using Cons.prems by (simp add: fill_inner_def fill_flags_def row_starts_def fill_cursor)
  from stage_pairs_NONZERO[of d sh "Q nd" K ?fl0 ?idx1] obtain vals where
    st: "stage_pairs d sh NONZERO (Q nd) (K, ?fl0, ?idx1)
      = (K\<lparr>valuePtr := vals, innerIndexPtr := fst (fold (write_event d) ?E (innerIndexPtr K, ?idx1))\<rparr>,
         ?fl1, snd (fold (write_event d) ?E (innerIndexPtr K, ?idx1)))" by blast
  let ?K1 = "K\<lparr>valuePtr := vals, innerIndexPtr := fst (fold (write_event d) ?E (innerIndexPtr K, ?idx1))\<rparr>"
  let ?idx2 = "snd (fold (write_event d) ?E (innerIndexPtr K, ?idx1))"
  have l: "length ?idx2 = d" by (simp add: length_write_events row_starts_def)
  from Cons.IH[OF l, of ?K1 ?fl1] obtain vals' idx' where
    ih: "inner_pass d sh NONZERO Q nodes (?K1, ?fl1, ?idx2)
     = (?K1\<lparr>valuePtr := vals',
          innerIndexPtr := fold (write_node d sh (outerIndexPtr ?K1)) (pass_events d Q nodes ?fl1)
                             (innerIndexPtr ?K1)\<rparr>,
        pass_flags d Q nodes ?fl1, idx')" "length idx' = d" by blast
  have "inner_pass d sh NONZERO Q (nd # nodes) (K, fl, idx)
      = inner_pass d sh NONZERO Q nodes (?K1, ?fl1, ?idx2)"
    by (simp add: inner_pass_def f st)
  with ih(1) have "inner_pass d sh NONZERO Q (nd # nodes) (K, fl, idx)
     = (K\<lparr>valuePtr := vals',
          innerIndexPtr := fold (write_node d sh (outerIndexPtr K)) (pass_events d Q (nd # nodes) fl)
                             (innerIndexPtr K)\<rparr>,
        pass_flags d Q (nd # nodes) fl, idx')"
    by (simp add: write_node_def)
  with ih(2) show ?case by blast
qed

subsection \<open>Cursors, counters and prefix sums\<close>

lemma sel_snoc: "sel d i (E @ [p]) = sel d i E @ (if fst p mod d = i then [p] else [])"
  by (simp add: sel_def)

lemma write_events_snoc:
  "fold (write_event d) (E @ [p]) s = write_event d p (fold (write_event d) E s)"
  by simp

lemma write_event_pair:
  "write_event d p (I, C) = (I[C ! (fst p mod d) := snd p], C[fst p mod d := C ! (fst p mod d) + 1])"
  by (simp add: write_event_def)

lemma cursor_after:
  assumes "0 < d" "length idx = d"
  shows "i < d \<Longrightarrow> snd (fold (write_event d) E (inn, idx)) ! i = idx ! i + length (sel d i E)"
proof (induction E arbitrary: i rule: rev_induct)
  case Nil
  then show ?case by (simp add: sel_def)
next
  case (snoc p E)
  obtain I C where s: "fold (write_event d) E (inn, idx) = (I, C)" by (cases "fold (write_event d) E (inn, idx)")
  have lc: "length C = d" using length_write_events(2)[of d E inn idx] s assms(2) by simp
  have ip: "fst p mod d < d" using assms(1) by simp
  from snoc.IH[of i] snoc.IH[of "fst p mod d"] snoc.prems ip
  show ?case
    by (auto simp: s write_event_pair sel_snoc lc nth_list_update)
qed

lemma written_cols:
  assumes d: "0 < d" and li: "length idx = d"
  shows "\<lbrakk>\<forall>i<d. \<forall>j<d. i \<noteq> j \<longrightarrow>
            idx ! i + length (sel d i E) \<le> idx ! j \<or> idx ! j + length (sel d j E) \<le> idx ! i;
          \<forall>i<d. idx ! i + length (sel d i E) \<le> length inn\<rbrakk> \<Longrightarrow>
         (\<forall>i<d. \<forall>k<length (sel d i E).
             fst (fold (write_event d) E (inn, idx)) ! (idx ! i + k) = snd (sel d i E ! k))
       \<and> (\<forall>j. (\<forall>i<d. j < idx ! i \<or> idx ! i + length (sel d i E) \<le> j) \<longrightarrow>
             fst (fold (write_event d) E (inn, idx)) ! j = inn ! j)"
proof (induction E rule: rev_induct)
  case Nil
  then show ?case by (simp add: sel_def)
next
  case (snoc p E)
  let ?ip = "fst p mod d"
  let ?I = "fst (fold (write_event d) E (inn, idx))"
  let ?C = "snd (fold (write_event d) E (inn, idx))"
  have ip: "?ip < d" using d by simp
  have le: "length (sel d i E) \<le> length (sel d i (E @ [p]))" for i by (simp add: sel_snoc)
  have disjE: "\<forall>i<d. \<forall>j<d. i \<noteq> j \<longrightarrow>
            idx ! i + length (sel d i E) \<le> idx ! j \<or> idx ! j + length (sel d j E) \<le> idx ! i"
  proof (intro allI impI)
    fix i j assume ij: "i < d" "j < d" "i \<noteq> j"
    with snoc.prems(1) have "idx ! i + length (sel d i (E @ [p])) \<le> idx ! j
       \<or> idx ! j + length (sel d j (E @ [p])) \<le> idx ! i" by blast
    with le[of i] le[of j] show "idx ! i + length (sel d i E) \<le> idx ! j \<or> idx ! j + length (sel d j E) \<le> idx ! i"
      by linarith
  qed
  have boundE: "\<forall>i<d. idx ! i + length (sel d i E) \<le> length inn"
    using snoc.prems(2) le by (meson add_le_cancel_left le_trans)
  from snoc.IH[OF disjE boundE] have
    ih1: "\<And>i k. i < d \<Longrightarrow> k < length (sel d i E) \<Longrightarrow> ?I ! (idx ! i + k) = snd (sel d i E ! k)"
    and ih2: "\<And>j. (\<forall>i<d. j < idx ! i \<or> idx ! i + length (sel d i E) \<le> j) \<Longrightarrow> ?I ! j = inn ! j"
    by blast+
  let ?c = "idx ! ?ip + length (sel d ?ip E)"
  have c: "?C ! ?ip = ?c" using cursor_after[OF d li ip] .
  have step: "fst (fold (write_event d) (E @ [p]) (inn, idx)) = ?I[?c := snd p]"
    using c by (cases "fold (write_event d) E (inn, idx)") (simp add: write_event_pair)
  have lenI: "length ?I = length inn" by (simp add: length_write_events)
  have cin: "?c < length inn"
    using snoc.prems(2) ip by (auto simp: sel_snoc dest!: spec[of _ ?ip])
  show ?case unfolding step
  proof (intro conjI allI impI)
    fix i k assume i: "i < d" and k: "k < length (sel d i (E @ [p]))"
    show "?I[?c := snd p] ! (idx ! i + k) = snd (sel d i (E @ [p]) ! k)"
    proof (cases "i = ?ip \<and> k = length (sel d ?ip E)")
      case True
      then show ?thesis using cin lenI by (simp add: sel_snoc nth_append)
    next
      case False
      have kE: "k < length (sel d i E)" using False k by (auto simp: sel_snoc split: if_splits)
      have ne: "idx ! i + k \<noteq> ?c"
      proof (cases "i = ?ip")
        case True
        then show ?thesis using kE by simp
      next
        case ne: False
        with snoc.prems(1) i ip have "idx ! i + length (sel d i (E @ [p])) \<le> idx ! ?ip
          \<or> idx ! ?ip + length (sel d ?ip (E @ [p])) \<le> idx ! i" by blast
        then show ?thesis using k by (auto simp: sel_snoc)
      qed
      then have "?I[?c := snd p] ! (idx ! i + k) = ?I ! (idx ! i + k)" by simp
      also have "\<dots> = snd (sel d i E ! k)" using ih1[OF i kE] .
      also have "\<dots> = snd (sel d i (E @ [p]) ! k)" using kE by (simp add: sel_snoc nth_append)
      finally show ?thesis .
    qed
  next
    fix j assume out: "\<forall>i<d. j < idx ! i \<or> idx ! i + length (sel d i (E @ [p])) \<le> j"
    then have outE: "\<forall>i<d. j < idx ! i \<or> idx ! i + length (sel d i E) \<le> j"
      using le by (meson add_le_cancel_left le_trans)
    from out ip have "j \<noteq> ?c" by (auto simp: sel_snoc dest!: spec[of _ ?ip])
    then show "?I[?c := snd p] ! j = inn ! j" using ih2[OF outE] by simp
  qed
qed

lemma count_events:
  "j < length out \<Longrightarrow>
   fold (count_event d sh) evs out ! j = out ! j + length (filter (\<lambda>p. fst p - d * sh + 1 = j) evs)"
proof (induction evs arbitrary: out)
  case Nil
  then show ?case by simp
next
  case (Cons p evs)
  have "length (count_event d sh p out) = length out" by (simp add: count_event_def)
  with Cons.IH[of "count_event d sh p out"] Cons.prems show ?case
    by (auto simp: count_event_def nth_list_update)
qed

lemma length_count_events [simp]: "length (fold (count_event d sh) evs out) = length out"
  by (induction evs arbitrary: out) (simp_all add: count_event_def)

lemma prefix_sums:
  fixes out :: "nat list"
  assumes "k \<le> n" "length out = n + 1"
  shows "length (fold (\<lambda>i out. out[i + 1 := out ! (i + 1) + out ! i]) [0..<k] out) = n + 1
       \<and> fold (\<lambda>i out. out[i + 1 := out ! (i + 1) + out ! i]) [0..<k] out ! 0 = out ! 0
       \<and> (\<forall>i<k. fold (\<lambda>i out. out[i + 1 := out ! (i + 1) + out ! i]) [0..<k] out ! (i + 1)
             = fold (\<lambda>i out. out[i + 1 := out ! (i + 1) + out ! i]) [0..<k] out ! i + out ! (i + 1))
       \<and> (\<forall>j>k. fold (\<lambda>i out. out[i + 1 := out ! (i + 1) + out ! i]) [0..<k] out ! j = out ! j)"
  using assms(1)
proof (induction k)
  case 0
  then show ?case using assms(2) by simp
next
  case (Suc k)
  let ?l = "fold (\<lambda>i out. out[i + 1 := out ! (i + 1) + out ! i]) [0..<k] out"
  from Suc have len: "length ?l = n + 1" and z: "?l ! 0 = out ! 0"
    and ih: "\<forall>i<k. ?l ! (i + 1) = ?l ! i + out ! (i + 1)"
    and beyond: "\<forall>j>k. ?l ! j = out ! j" by simp_all
  let ?l' = "?l[k + 1 := ?l ! (k + 1) + ?l ! k]"
  have "?l' ! (i + 1) = ?l' ! i + out ! (i + 1)" if "i < Suc k" for i
  proof (cases "i = k")
    case True
    then show ?thesis using len Suc.prems beyond by simp
  next
    case False
    with that have "i < k" by simp
    then show ?thesis using ih by simp
  qed
  moreover have "?l' ! j = out ! j" if "j > Suc k" for j using that beyond by simp
  ultimately show ?case using len z by simp
qed

lemma prepare_memory_outer:
  assumes "length (outerIndexPtr K) = n + 1"
  shows "length (outerIndexPtr (prepare_memory K)) = n + 1"
    and "outerIndexPtr (prepare_memory K) ! 0 = outerIndexPtr K ! 0"
    and "\<forall>i<n. outerIndexPtr (prepare_memory K) ! (i + 1)
            = outerIndexPtr (prepare_memory K) ! i + outerIndexPtr K ! (i + 1)"
    and "length (innerIndexPtr (prepare_memory K)) = outerIndexPtr (prepare_memory K) ! n"
  using prefix_sums[of n n "outerIndexPtr K"] assms
  by (simp_all add: prepare_memory_def rows_def Let_def)

subsection \<open>The columns written by pass \<open>NONZERO\<close>\<close>

lemma row_decomp:
  fixes d :: nat
  assumes "cr < d" "i < d" "d * a + cr = d * b + i"
  shows "a = b" "cr = i"
proof -
  have "(d * a + cr) div d = a" "(d * b + i) div d = b" using assms(1,2) by simp_all
  with assms(3) show "a = b" by simp
  with assms(3) show "cr = i" by simp
qed

lemma local_row:
  fixes d :: nat
  assumes "sh \<le> nd"
  shows "d * nd + cr - d * sh = d * (nd - sh) + cr"
proof -
  from assms obtain t where "nd = sh + t" using le_Suc_ex by blast
  then show ?thesis by (simp add: distrib_left)
qed

lemma segments_disjoint:
  fixes ou :: "nat list"
  assumes rs: "running_sums ou R cnt" and rw: "rw < R" "rw' < R" "rw \<noteq> rw'"
  shows "ou ! (rw + 1) \<le> ou ! rw' \<or> ou ! (rw' + 1) \<le> ou ! rw"
proof -
  have rs': "\<forall>el<R. (\<lambda>k. ou ! k) (el + 1) = (\<lambda>k. ou ! k) el + cnt el"
    using rs by (simp add: running_sums_def)
  show ?thesis
  proof (cases "rw < rw'")
    case True
    then show ?thesis using running_sum_mono[OF rs', of "rw + 1" rw'] rw by simp
  next
    case False
    with rw have "rw' < rw" by simp
    then show ?thesis using running_sum_mono[OF rs', of "rw' + 1" rw] rw by simp
  qed
qed

lemma segment_bound:
  fixes ou :: "nat list"
  assumes rs: "running_sums ou R cnt" and rw: "rw < R"
  shows "ou ! (rw + 1) \<le> ou ! R" "ou ! (rw + 1) = ou ! rw + cnt rw"
proof -
  have rs': "\<forall>el<R. (\<lambda>k. ou ! k) (el + 1) = (\<lambda>k. ou ! k) el + cnt el"
    using rs by (simp add: running_sums_def)
  show "ou ! (rw + 1) \<le> ou ! R" using running_sum_mono[OF rs', of "rw + 1" R] rw by simp
  show "ou ! (rw + 1) = ou ! rw + cnt rw" using rs rw by (simp add: running_sums_def)
qed

lemma write_node_result:
  fixes ou :: "nat list"
  assumes d: "0 < d" and rs: "running_sums ou R cnt" and len: "length inn = ou ! R"
    and ok: "conform d sh R (nd, E)"
    and cm: "\<forall>i<d. length (sel d i E) = cnt (d * (nd - sh) + i)"
  shows "length (write_node d sh ou (nd, E) inn) = length inn"
    and "\<forall>i<d. \<forall>k<cnt (d * (nd - sh) + i).
           write_node d sh ou (nd, E) inn ! (ou ! (d * (nd - sh) + i) + k) = snd (sel d i E ! k)"
    and "\<forall>j. (\<forall>i<d. j < ou ! (d * (nd - sh) + i) \<or> ou ! (d * (nd - sh) + i + 1) \<le> j) \<longrightarrow>
           write_node d sh ou (nd, E) inn ! j = inn ! j"
proof -
  let ?idx = "row_starts d sh ou nd"
  let ?r = "\<lambda>i. d * (nd - sh) + i"
  have li: "length ?idx = d" by (simp add: row_starts_def)
  have idx: "?idx ! i = ou ! ?r i" if "i < d" for i using that by (simp add: row_starts_def)
  have rR: "?r i < R" if "i < d" for i using ok that by (simp add: conform_def)
  have nxt: "ou ! (?r i + 1) = ?idx ! i + length (sel d i E)" if "i < d" for i
    using segment_bound(2)[OF rs rR[OF that]] cm that idx by simp
  have disj: "\<forall>i<d. \<forall>j<d. i \<noteq> j \<longrightarrow>
            ?idx ! i + length (sel d i E) \<le> ?idx ! j \<or> ?idx ! j + length (sel d j E) \<le> ?idx ! i"
  proof (intro allI impI)
    fix i j assume ij: "i < d" "j < d" "i \<noteq> j"
    from segments_disjoint[OF rs rR[OF ij(1)] rR[OF ij(2)]] ij(3)
    have "ou ! (?r i + 1) \<le> ou ! ?r j \<or> ou ! (?r j + 1) \<le> ou ! ?r i" by simp
    then show "?idx ! i + length (sel d i E) \<le> ?idx ! j \<or> ?idx ! j + length (sel d j E) \<le> ?idx ! i"
      using nxt[OF ij(1)] nxt[OF ij(2)] idx[OF ij(1)] idx[OF ij(2)] by simp
  qed
  have bound: "\<forall>i<d. ?idx ! i + length (sel d i E) \<le> length inn"
    using segment_bound(1)[OF rs rR] nxt len by (metis)
  from written_cols[OF d li disj bound] have
    w1: "\<And>i k. i < d \<Longrightarrow> k < length (sel d i E) \<Longrightarrow>
           fst (fold (write_event d) E (inn, ?idx)) ! (?idx ! i + k) = snd (sel d i E ! k)"
    and w2: "\<And>j. (\<forall>i<d. j < ?idx ! i \<or> ?idx ! i + length (sel d i E) \<le> j) \<Longrightarrow>
           fst (fold (write_event d) E (inn, ?idx)) ! j = inn ! j" by blast+
  show "length (write_node d sh ou (nd, E) inn) = length inn"
    by (simp add: write_node_def length_write_events)
  show "\<forall>i<d. \<forall>k<cnt (?r i).
           write_node d sh ou (nd, E) inn ! (ou ! ?r i + k) = snd (sel d i E ! k)"
    using w1 cm idx by (simp add: write_node_def)
  show "\<forall>j. (\<forall>i<d. j < ou ! ?r i \<or> ou ! (?r i + 1) \<le> j) \<longrightarrow>
           write_node d sh ou (nd, E) inn ! j = inn ! j"
  proof (intro allI impI)
    fix j assume "\<forall>i<d. j < ou ! ?r i \<or> ou ! (?r i + 1) \<le> j"
    then have "\<forall>i<d. j < ?idx ! i \<or> ?idx ! i + length (sel d i E) \<le> j"
      using nxt idx by simp
    from w2[OF this] show "write_node d sh ou (nd, E) inn ! j = inn ! j"
      by (simp add: write_node_def)
  qed
qed

lemma write_pass_result:
  fixes ou :: "nat list"
  assumes d: "0 < d" and rs: "running_sums ou R cnt"
  shows "\<lbrakk>length inn = ou ! R; distinct (map fst EV); \<forall>ne \<in> set EV. conform d sh R ne;
          \<forall>ne \<in> set EV. \<forall>i<d. length (sel d i (snd ne)) = cnt (d * (fst ne - sh) + i)\<rbrakk> \<Longrightarrow>
         length (fold (write_node d sh ou) EV inn) = length inn
       \<and> (\<forall>ne \<in> set EV. \<forall>i<d. \<forall>k<cnt (d * (fst ne - sh) + i).
             fold (write_node d sh ou) EV inn ! (ou ! (d * (fst ne - sh) + i) + k)
               = snd (sel d i (snd ne) ! k))
       \<and> (\<forall>j. (\<forall>ne \<in> set EV. \<forall>i<d. j < ou ! (d * (fst ne - sh) + i)
                                        \<or> ou ! (d * (fst ne - sh) + i + 1) \<le> j) \<longrightarrow>
             fold (write_node d sh ou) EV inn ! j = inn ! j)"
proof (induction EV arbitrary: inn)
  case Nil
  then show ?case by simp
next
  case (Cons x EV)
  obtain nd E where x: "x = (nd, E)" by (cases x)
  let ?W = "write_node d sh ou (nd, E) inn"
  have okx: "conform d sh R (nd, E)" using Cons.prems(3) x by simp
  have cmx: "\<forall>i<d. length (sel d i E) = cnt (d * (nd - sh) + i)" using Cons.prems(4) x by simp
  note wn = write_node_result[OF d rs Cons.prems(1) okx cmx]
  have lenW: "length ?W = ou ! R" using wn(1) Cons.prems(1) by simp
  from Cons.IH[OF lenW] Cons.prems(2,3,4) have
    ih1: "length (fold (write_node d sh ou) EV ?W) = length ?W"
    and ih2: "\<And>ne i k. ne \<in> set EV \<Longrightarrow> i < d \<Longrightarrow> k < cnt (d * (fst ne - sh) + i) \<Longrightarrow>
             fold (write_node d sh ou) EV ?W ! (ou ! (d * (fst ne - sh) + i) + k)
               = snd (sel d i (snd ne) ! k)"
    and ih3: "\<And>j. (\<forall>ne \<in> set EV. \<forall>i<d. j < ou ! (d * (fst ne - sh) + i)
                                        \<or> ou ! (d * (fst ne - sh) + i + 1) \<le> j) \<Longrightarrow>
             fold (write_node d sh ou) EV ?W ! j = ?W ! j"
    by simp_all
  have rR: "d * (fst ne - sh) + i < R" if "ne \<in> set (x # EV)" "i < d" for ne i
    using Cons.prems(3) that by (auto simp: conform_def)
  have sh_le: "sh \<le> fst ne" if "ne \<in> set (x # EV)" for ne
    using Cons.prems(3) that by (auto simp: conform_def)
  have other: "fold (write_node d sh ou) EV ?W ! (ou ! (d * (nd - sh) + i) + k)
      = ?W ! (ou ! (d * (nd - sh) + i) + k)" if i: "i < d" and k: "k < cnt (d * (nd - sh) + i)" for i k
  proof (rule ih3, intro ballI allI impI)
    fix ne i' assume ne: "ne \<in> set EV" and i': "i' < d"
    have "fst ne \<noteq> nd" using Cons.prems(2) ne x by force
    then have "fst ne - sh \<noteq> nd - sh" using sh_le[of ne] sh_le[of x] ne x by simp
    then have neq: "d * (nd - sh) + i \<noteq> d * (fst ne - sh) + i'"
      using row_decomp(1)[OF i i', of "nd - sh" "fst ne - sh"] by auto
    have r1: "d * (nd - sh) + i < R" using rR[of x i] x i by simp
    have r2: "d * (fst ne - sh) + i' < R" using rR[of ne i'] ne i' by simp
    from segments_disjoint[OF rs r1 r2 neq] segment_bound(2)[OF rs r1] k
    show "ou ! (d * (nd - sh) + i) + k < ou ! (d * (fst ne - sh) + i')
        \<or> ou ! (d * (fst ne - sh) + i' + 1) \<le> ou ! (d * (nd - sh) + i) + k"
      by auto
  qed
  show ?case
  proof (intro conjI ballI allI impI)
    show "length (fold (write_node d sh ou) (x # EV) inn) = length inn"
      using ih1 wn(1) by (simp add: x)
  next
    fix ne i k assume ne: "ne \<in> set (x # EV)" and i: "i < d" and k: "k < cnt (d * (fst ne - sh) + i)"
    show "fold (write_node d sh ou) (x # EV) inn ! (ou ! (d * (fst ne - sh) + i) + k)
        = snd (sel d i (snd ne) ! k)"
    proof (cases "ne = x")
      case True
      then show ?thesis using other[of i k] wn(2) i k by (simp add: x)
    next
      case False
      with ne have "ne \<in> set EV" by simp
      from ih2[OF this i k] show ?thesis by (simp add: x)
    qed
  next
    fix j assume out: "\<forall>ne \<in> set (x # EV). \<forall>i<d. j < ou ! (d * (fst ne - sh) + i)
                                        \<or> ou ! (d * (fst ne - sh) + i + 1) \<le> j"
    then have "fold (write_node d sh ou) EV ?W ! j = ?W ! j" by (intro ih3) simp
    also have "?W ! j = inn ! j" using wn(3) out by (simp add: x)
    finally show "fold (write_node d sh ou) (x # EV) inn ! j = inn ! j" by (simp add: x)
  qed
qed

subsection \<open>The counters of pass \<open>SHIFTS\<close> match the writes of pass \<open>NONZERO\<close>\<close>

lemma filter_concat_empty:
  "\<forall>xs \<in> set xss. filter P xs = [] \<Longrightarrow> filter P (concat xss) = []"
  by (induction xss) simp_all

lemma foreign_events:
  assumes d: "0 < d" and ok: "conform d sh R ne" and okn: "sh \<le> nd" and ne: "fst ne \<noteq> nd" and i: "i < d"
  shows "filter (\<lambda>p. fst p - d * sh + 1 = d * (nd - sh) + i + 1) (snd ne) = []"
proof -
  have "fst p - d * sh + 1 \<noteq> d * (nd - sh) + i + 1" if p: "p \<in> set (snd ne)" for p
  proof
    assume eq: "fst p - d * sh + 1 = d * (nd - sh) + i + 1"
    from ok p obtain cr where cr: "cr < d" "fst p = d * fst ne + cr" by (auto simp: conform_def)
    from ok have "sh \<le> fst ne" by (simp add: conform_def)
    then have "fst p - d * sh = d * (fst ne - sh) + cr" using cr(2) local_row by simp
    with eq have "d * (fst ne - sh) + cr = d * (nd - sh) + i" by simp
    from row_decomp(1)[OF cr(1) i this] have "fst ne - sh = nd - sh" .
    with \<open>sh \<le> fst ne\<close> okn ne show False by simp
  qed
  then show ?thesis by (simp add: filter_empty_conv)
qed

lemma own_events:
  assumes d: "0 < d" and ok: "conform d sh R (nd, E)" and i: "i < d"
  shows "filter (\<lambda>p. fst p - d * sh + 1 = d * (nd - sh) + i + 1) E = sel d i E"
  unfolding sel_def
proof (rule filter_cong[OF refl])
  fix p assume p: "p \<in> set E"
  from ok p obtain cr where cr: "cr < d" "fst p = d * nd + cr" by (auto simp: conform_def)
  from ok have "sh \<le> nd" by (simp add: conform_def)
  then have l: "fst p - d * sh = d * (nd - sh) + cr" using cr(2) local_row by simp
  have m: "fst p mod d = cr" using cr by simp
  show "(fst p - d * sh + 1 = d * (nd - sh) + i + 1) = (fst p mod d = i)"
    using l m by auto
qed

lemma count_match:
  assumes d: "0 < d" and i: "i < d"
  shows "\<lbrakk>distinct (map fst EV); \<forall>ne \<in> set EV. conform d sh R ne; (nd, E) \<in> set EV\<rbrakk> \<Longrightarrow>
    length (filter (\<lambda>p. fst p - d * sh + 1 = d * (nd - sh) + i + 1) (concat (map snd EV)))
      = length (sel d i E)"
proof (induction EV)
  case Nil
  then show ?case by simp
next
  case (Cons x EV)
  let ?P = "\<lambda>p. fst p - d * sh + 1 = d * (nd - sh) + i + 1"
  have okn: "conform d sh R (nd, E)" using Cons.prems by auto
  then have shn: "sh \<le> nd" by (simp add: conform_def)
  show ?case
  proof (cases "x = (nd, E)")
    case True
    have "\<forall>xs \<in> set (map snd EV). filter ?P xs = []"
    proof
      fix xs assume "xs \<in> set (map snd EV)"
      then obtain ne where ne: "ne \<in> set EV" "xs = snd ne" by auto
      have "fst ne \<in> fst ` set EV" using ne(1) by (rule imageI)
      moreover have "fst x \<notin> fst ` set EV" using Cons.prems(1) by simp
      ultimately have "fst ne \<noteq> nd" using True by auto
      from foreign_events[OF d _ shn this i, of R] Cons.prems(2) ne show "filter ?P xs = []" by simp
    qed
    then have "filter ?P (concat (map snd EV)) = []" by (rule filter_concat_empty)
    then show ?thesis using own_events[OF d okn i] True by simp
  next
    case False
    then have mem: "(nd, E) \<in> set EV" using Cons.prems(3) by simp
    then have "fst (nd, E) \<in> fst ` set EV" by (rule imageI)
    moreover have "fst x \<notin> fst ` set EV" using Cons.prems(1) by simp
    ultimately have "fst x \<noteq> nd" by auto
    from foreign_events[OF d _ shn this i, of R] Cons.prems(2)
    have "filter ?P (snd x) = []" by simp
    then show ?thesis using Cons.IH mem Cons.prems(1,2) by simp
  qed
qed

lemma fresh_subset: "set (fresh d fl ps) \<subseteq> set ps"
  by (induction ps arbitrary: fl) auto

lemma pass_events_keys [simp]: "map fst (pass_events d Q nodes fl) = nodes"
  by (induction nodes arbitrary: fl) simp_all

lemma pass_events_subset:
  "(nd, E) \<in> set (pass_events d Q nodes fl) \<Longrightarrow> set E \<subseteq> set (Q nd)"
  by (induction nodes arbitrary: fl) (auto dest: subsetD[OF fresh_subset])

lemma node_pairs_shape:
  assumes "p \<in> set (node_pairs d Theory proxy inodes nd)"
  shows "\<exists>cr<d. fst p = d * nd + cr \<and> fst p \<le> snd p"
  using assms
  by (auto simp: node_pairs_def block_pairs_def to_inner_def split: if_splits)

lemma pass_events_conform:
  assumes "ne \<in> set (pass_events d (node_pairs d Theory proxy inodes) [sh..<lst] fl)"
  shows "conform d sh (d * (lst - sh)) ne"
proof -
  obtain nd E where ne: "ne = (nd, E)" by (cases ne)
  have "fst ne \<in> fst ` set (pass_events d (node_pairs d Theory proxy inodes) [sh..<lst] fl)"
    using assms by (rule imageI)
  then have "nd \<in> set (map fst (pass_events d (node_pairs d Theory proxy inodes) [sh..<lst] fl))"
    by (simp only: set_map ne fst_conv)
  then have "nd \<in> set [sh..<lst]" by (simp only: pass_events_keys)
  then have nd: "sh \<le> nd" "nd < lst" by simp_all
  then have "nd - sh + 1 \<le> lst - sh" by simp
  then have "d * (nd - sh + 1) \<le> d * (lst - sh)" by (rule mult_le_mono2)
  then have b: "d * (nd - sh) + d \<le> d * (lst - sh)" by (simp add: distrib_left)
  from pass_events_subset[of nd E] assms ne node_pairs_shape
  have "\<forall>p \<in> set E. \<exists>cr<d. fst p = d * nd + cr \<and> fst p \<le> snd p" by blast
  with nd b show ?thesis by (simp add: conform_def ne)
qed

lemma sort_step:
  fixes xs :: "nat list"
  assumes "a \<le> b" "b \<le> length xs"
  shows "length (take a xs @ sort (take (b - a) (drop a xs)) @ drop b xs) = length xs"
    and "take (b - a) (drop a (take a xs @ sort (take (b - a) (drop a xs)) @ drop b xs))
           = sort (take (b - a) (drop a xs))"
    and "a' \<le> b' \<Longrightarrow> b' \<le> a \<Longrightarrow>
         take (b' - a') (drop a' (take a xs @ sort (take (b - a) (drop a xs)) @ drop b xs))
           = take (b' - a') (drop a' xs)"
    and "b \<le> a' \<Longrightarrow>
         take (b' - a') (drop a' (take a xs @ sort (take (b - a) (drop a xs)) @ drop b xs))
           = take (b' - a') (drop a' xs)"
  using assms by (auto simp: min_def drop_take)

subsection \<open>Sorting the rows\<close>

lemma sort_rows:
  fixes ou :: "nat list"
  assumes rs: "running_sums ou R cnt" and len: "length inn = ou ! R"
  shows "k \<le> R \<Longrightarrow>
     length (fold (\<lambda>i inn. let a = ou ! i; b = ou ! (i + 1)
                            in take a inn @ sort (take (b - a) (drop a inn)) @ drop b inn) [0..<k] inn)
       = length inn
   \<and> (\<forall>i<k. seg ou i (fold (\<lambda>i inn. let a = ou ! i; b = ou ! (i + 1)
                            in take a inn @ sort (take (b - a) (drop a inn)) @ drop b inn) [0..<k] inn)
              = sort (seg ou i inn))
   \<and> (\<forall>i\<ge>k. i < R \<longrightarrow> seg ou i (fold (\<lambda>i inn. let a = ou ! i; b = ou ! (i + 1)
                            in take a inn @ sort (take (b - a) (drop a inn)) @ drop b inn) [0..<k] inn)
              = seg ou i inn)"
proof (induction k)
  case 0
  then show ?case by simp
next
  case (Suc k)
  let ?step = "\<lambda>i inn. let a = ou ! i; b = ou ! (i + 1)
                 in take a inn @ sort (take (b - a) (drop a inn)) @ drop b inn"
  let ?res = "fold ?step [0..<k] inn"
  let ?a = "ou ! k" and ?b = "ou ! (k + 1)"
  have rs': "\<forall>el<R. (\<lambda>i. ou ! i) (el + 1) = (\<lambda>i. ou ! i) el + cnt el"
    using rs by (simp add: running_sums_def)
  have mono: "ou ! x \<le> ou ! y" if "x \<le> y" "y \<le> R" for x y
    using running_sum_mono[OF rs' that] .
  from Suc have k: "k < R" and IH:
    "length ?res = length inn"
    "\<forall>i<k. seg ou i ?res = sort (seg ou i inn)"
    "\<forall>i\<ge>k. i < R \<longrightarrow> seg ou i ?res = seg ou i inn" by simp_all
  have ab: "?a \<le> ?b" using mono[of k "k + 1"] k by simp
  have bl: "?b \<le> length ?res" using mono[of "k + 1" R] k IH(1) len by simp
  have unf: "fold ?step [0..<Suc k] inn
       = take ?a ?res @ sort (take (?b - ?a) (drop ?a ?res)) @ drop ?b ?res" (is "_ = ?new")
    by (simp add: Let_def)
  note st = sort_step[OF ab bl]
  have 1: "length ?new = length inn" using st(1) IH(1) by simp
  have 2: "seg ou i ?new = sort (seg ou i inn)" if "i < Suc k" for i
  proof (cases "i = k")
    case True
    have "seg ou k ?new = sort (seg ou k ?res)" unfolding seg_def using st(2) by simp
    also have "\<dots> = sort (seg ou k inn)" using IH(3) k by simp
    finally show ?thesis using True by simp
  next
    case False
    then have i: "i < k" using that by simp
    have "ou ! i \<le> ou ! (i + 1)" "ou ! (i + 1) \<le> ?a" using mono[of i "i + 1"] mono[of "i + 1" k] i k by simp_all
    from st(3)[OF this] have "seg ou i ?new = seg ou i ?res" by (simp add: seg_def)
    then show ?thesis using IH(2) i by simp
  qed
  have 3: "seg ou i ?new = seg ou i inn" if "Suc k \<le> i" "i < R" for i
  proof -
    have "?b \<le> ou ! i" using mono[of "k + 1" i] that by simp
    from st(4)[OF this, of "ou ! (i + 1)"] have "seg ou i ?new = seg ou i ?res" by (simp add: seg_def)
    then show ?thesis using IH(3) that by simp
  qed
  show ?case unfolding unf using 1 2 3 by blast
qed

lemma sort_indices_rows:
  assumes rs: "running_sums (outerIndexPtr K) (rows K) cnt"
    and len: "length (innerIndexPtr K) = outerIndexPtr K ! rows K"
  shows "outerIndexPtr (sort_indices K) = outerIndexPtr K"
    and "rw < rows K \<Longrightarrow> row_columns (sort_indices K) rw = sort (row_columns K rw)"
proof -
  show "outerIndexPtr (sort_indices K) = outerIndexPtr K" by (simp add: sort_indices_def)
  assume "rw < rows K"
  with sort_rows[OF rs len, of "rows K"]
  show "row_columns (sort_indices K) rw = sort (row_columns K rw)"
    by (simp add: row_columns_def sort_indices_def seg_def)
qed

subsection \<open>The portrait of the inner matrix\<close>

lemma portrait_fst:
  "fst (create_matrix_portrait_2d d Theory proxy inodes)
     = sort_indices (fst (inner_pass d (first_node proxy) NONZERO (node_pairs d Theory proxy inodes)
         [first_node proxy..<last_node proxy]
         (prepare_memory (fst (inner_pass d (first_node proxy) SHIFTS (node_pairs d Theory proxy inodes)
            [first_node proxy..<last_node proxy]
            (\<lparr>outerIndexPtr = replicate (d * (last_node proxy - first_node proxy) + 1) 0,
              innerIndexPtr = [], valuePtr = []\<rparr>,
             replicate d (replicate (length inodes) False), replicate d 0))),
          replicate d (replicate (length inodes) False), replicate d 0)))"
proof -
  have "fst (case mesh_index d NONZERO Theory proxy X Y inodes of (Ki2, Kb2) \<Rightarrow> (sort_indices Ki2, sort_indices Kb2))
          = sort_indices (fst (mesh_index d NONZERO Theory proxy X Y inodes))" for X Y
    by (simp add: split_beta)
  then show ?thesis
    by (simp add: create_matrix_portrait_2d_def Let_def split_beta mesh_index_inner)
qed

lemma in_take_drop:
  assumes "x \<in> set (take n (drop a xs))"
  shows "\<exists>k<n. a + k < length xs \<and> x = xs ! (a + k)"
proof -
  from assms obtain k where "k < length (take n (drop a xs))" "x = take n (drop a xs) ! k"
    by (auto simp: in_set_conv_nth)
  then have "k < n" "a + k < length xs" "x = xs ! (a + k)" by auto
  then show ?thesis by blast
qed

lemma two_pass_rows:
  fixes sh lst d :: nat and Q
  assumes d: "0 < d"
    and Q: "Q = node_pairs d Theory proxy inodes"
    and K2: "K2 = fst (inner_pass d sh NONZERO Q [sh..<lst]
         (prepare_memory (fst (inner_pass d sh SHIFTS Q [sh..<lst]
            (\<lparr>outerIndexPtr = replicate (d * (lst - sh) + 1) 0, innerIndexPtr = [], valuePtr = []\<rparr>,
             fl0, replicate d 0))), fl0, replicate d 0))"
  shows "\<exists>cnt. length (outerIndexPtr K2) = d * (lst - sh) + 1
       \<and> running_sums (outerIndexPtr K2) (d * (lst - sh)) cnt
       \<and> length (innerIndexPtr K2) = outerIndexPtr K2 ! (d * (lst - sh))
       \<and> (\<forall>rw < d * (lst - sh). \<forall>col \<in> set (row_columns K2 rw). rw + d * sh \<le> col)"
proof -
  let ?R = "d * (lst - sh)"
  let ?e0 = "\<lparr>outerIndexPtr = replicate (?R + 1) 0, innerIndexPtr = [], valuePtr = []\<rparr>"
  let ?EV = "pass_events d Q [sh..<lst] fl0"
  let ?A = "concat (map snd ?EV)"
  let ?O1 = "fold (count_event d sh) ?A (replicate (?R + 1) 0)"
  let ?K1 = "?e0\<lparr>outerIndexPtr := ?O1\<rparr>"
  let ?K1p = "prepare_memory ?K1"
  let ?ou = "outerIndexPtr ?K1p"
  define cnt where "cnt = (\<lambda>i. length (filter (\<lambda>p. fst p - d * sh + 1 = i + 1) ?A))"
  from inner_pass_SHIFTS[of d sh Q "[sh..<lst]" ?e0 fl0 "replicate d 0"]
  have K1: "fst (inner_pass d sh SHIFTS Q [sh..<lst] (?e0, fl0, replicate d 0)) = ?K1" by auto
  from inner_pass_NONZERO[of "replicate d 0" d sh Q "[sh..<lst]" ?K1p fl0]
  obtain vals where K2': "K2 = ?K1p\<lparr>valuePtr := vals,
      innerIndexPtr := fold (write_node d sh ?ou) ?EV (innerIndexPtr ?K1p)\<rparr>"
    unfolding K2 K1 by auto
  have lenO1: "length (outerIndexPtr ?K1) = ?R + 1" by simp
  note pm = prepare_memory_outer[OF lenO1]
  have O1: "?O1 ! (i + 1) = cnt i" if "i < ?R" for i
    using count_events[of "i + 1" "replicate (?R + 1) 0" d sh ?A] that by (simp add: cnt_def)
  have rs: "running_sums ?ou ?R cnt"
    unfolding running_sums_def using pm(3) O1 by simp
  have dist: "distinct (map fst ?EV)" by simp
  have conf: "\<forall>ne \<in> set ?EV. conform d sh ?R ne"
    using pass_events_conform[of _ d Theory proxy inodes sh lst fl0] unfolding Q by blast
  have cm: "\<forall>ne \<in> set ?EV. \<forall>i<d. length (sel d i (snd ne)) = cnt (d * (fst ne - sh) + i)"
  proof (intro ballI allI impI)
    fix ne i assume ne: "ne \<in> set ?EV" and i: "i < d"
    then have "(fst ne, snd ne) \<in> set ?EV" by simp
    from count_match[OF d i dist conf this] show "length (sel d i (snd ne)) = cnt (d * (fst ne - sh) + i)"
      by (simp add: cnt_def)
  qed
  note wp = write_pass_result[OF d rs pm(4) dist conf cm]
  let ?inn2 = "fold (write_node d sh ?ou) ?EV (innerIndexPtr ?K1p)"
  have ou2: "outerIndexPtr K2 = ?ou" and inn2: "innerIndexPtr K2 = ?inn2" by (simp_all add: K2')
  have len2: "length ?inn2 = ?ou ! ?R" using wp pm(4) by simp
  have upper: "rw + d * sh \<le> col" if rw: "rw < ?R" and col: "col \<in> set (row_columns K2 rw)" for rw col
  proof -
    let ?nd = "sh + rw div d" and ?i = "rw mod d"
    have i: "?i < d" using d by simp
    have "rw div d < lst - sh" using rw d by (simp add: less_mult_imp_div_less mult.commute)
    then have "?nd \<in> set [sh..<lst]" by simp
    then have "?nd \<in> set (map fst ?EV)" by (simp only: pass_events_keys)
    then have "?nd \<in> fst ` set ?EV" by (simp only: set_map)
    then obtain ne where ne0: "?nd = fst ne" "ne \<in> set ?EV" by (rule imageE)
    then have ne: "ne \<in> set ?EV" "fst ne = ?nd" by simp_all
    have row: "d * (fst ne - sh) + ?i = rw" using ne(2) by simp
    have w: "rw < ?R" by (rule rw)
    have next_row: "?ou ! (rw + 1) = ?ou ! rw + cnt rw" using rs rw by (simp add: running_sums_def)
    have "col \<in> set (take (cnt rw) (drop (?ou ! rw) ?inn2))"
      using col unfolding row_columns_def ou2 inn2 next_row by simp
    from in_take_drop[OF this]
    obtain k where k: "k < cnt rw" "?ou ! rw + k < length ?inn2" "col = ?inn2 ! (?ou ! rw + k)"
      by blast
    from wp ne(1) i k(1) row have c: "col = snd (sel d ?i (snd ne) ! k)"
      unfolding k(3) by (metis)
    have "k < length (sel d ?i (snd ne))" using cm ne(1) i row k(1) by metis
    then have "sel d ?i (snd ne) ! k \<in> set (sel d ?i (snd ne))" by simp
    then have p: "sel d ?i (snd ne) ! k \<in> set (snd ne)" "fst (sel d ?i (snd ne) ! k) mod d = ?i"
      by (simp_all add: sel_def)
    from conf ne(1) p(1) obtain cr where cr: "cr < d" "fst (sel d ?i (snd ne) ! k) = d * fst ne + cr"
      "fst (sel d ?i (snd ne) ! k) \<le> snd (sel d ?i (snd ne) ! k)"
      unfolding conform_def by blast
    from p(2) cr(1,2) have "cr = ?i" by simp
    then have "fst (sel d ?i (snd ne) ! k) = d * sh + rw" using cr(2) ne(2) by (simp add: distrib_left)
    then show ?thesis using cr(3) c by simp
  qed
  have "length (outerIndexPtr K2) = ?R + 1" using pm(1) ou2 by simp
  moreover have "running_sums (outerIndexPtr K2) ?R cnt" using rs ou2 by simp
  moreover have "length (innerIndexPtr K2) = outerIndexPtr K2 ! ?R" using len2 ou2 inn2 by simp
  ultimately show ?thesis using upper by blast
qed

lemma two_pass_rank_zero:
  "rows (fst (inner_pass 0 sh NONZERO Q nodes
         (prepare_memory (fst (inner_pass 0 sh SHIFTS Q nodes
            (\<lparr>outerIndexPtr = [0], innerIndexPtr = [], valuePtr = []\<rparr>, fl0, []))), fl0, []))) = 0"
proof -
  let ?e0 = "\<lparr>outerIndexPtr = [0], innerIndexPtr = [], valuePtr = []\<rparr>"
  from inner_pass_SHIFTS[of 0 sh Q nodes ?e0 fl0 "[]"]
  obtain O1 where K1: "fst (inner_pass 0 sh SHIFTS Q nodes (?e0, fl0, [])) = ?e0\<lparr>outerIndexPtr := O1\<rparr>"
     and "length O1 = 1" by auto
  then have "length (outerIndexPtr (?e0\<lparr>outerIndexPtr := O1\<rparr>)) = 0 + 1" by simp
  note pm = prepare_memory_outer(1)[OF this]
  from inner_pass_NONZERO[of "[]" 0 sh Q nodes "prepare_memory (?e0\<lparr>outerIndexPtr := O1\<rparr>)" fl0]
  show ?thesis unfolding K1 using pm by (auto simp: rows_def)
qed

lemma portrait_upper_sorted:
  fixes d :: nat
  assumes K: "K = fst (create_matrix_portrait_2d d Theory proxy inodes)"
  shows "rows K = d * (last_node proxy - first_node proxy)
       \<and> (\<forall>rw < rows K. sorted (row_columns K rw)
             \<and> (\<forall>col \<in> set (row_columns K rw). rw + d * first_node proxy \<le> col))"
proof (cases "d = 0")
  case True
  have "rows K = 0" unfolding K portrait_fst True using two_pass_rank_zero
    by (simp add: rows_def sort_indices_def)
  then show ?thesis using True by simp
next
  case False
  then have d: "0 < d" by simp
  let ?sh = "first_node proxy" and ?lst = "last_node proxy"
  define K2 where "K2 = fst (inner_pass d ?sh NONZERO (node_pairs d Theory proxy inodes) [?sh..<?lst]
         (prepare_memory (fst (inner_pass d ?sh SHIFTS (node_pairs d Theory proxy inodes) [?sh..<?lst]
            (\<lparr>outerIndexPtr = replicate (d * (?lst - ?sh) + 1) 0, innerIndexPtr = [], valuePtr = []\<rparr>,
             replicate d (replicate (length inodes) False), replicate d 0))),
          replicate d (replicate (length inodes) False), replicate d 0))"
  have KK: "K = sort_indices K2" unfolding K portrait_fst K2_def ..
  from two_pass_rows[OF d refl K2_def] obtain cnt where
    r: "length (outerIndexPtr K2) = d * (?lst - ?sh) + 1"
       "running_sums (outerIndexPtr K2) (d * (?lst - ?sh)) cnt"
       "length (innerIndexPtr K2) = outerIndexPtr K2 ! (d * (?lst - ?sh))"
       "\<forall>rw < d * (?lst - ?sh). \<forall>col \<in> set (row_columns K2 rw). rw + d * ?sh \<le> col"
    by blast
  have rows2: "rows K2 = d * (?lst - ?sh)" using r(1) by (simp add: rows_def)
  from r(2,3) have rs: "running_sums (outerIndexPtr K2) (rows K2) cnt"
    and len: "length (innerIndexPtr K2) = outerIndexPtr K2 ! rows K2" by (simp_all add: rows2)
  note si = sort_indices_rows[OF rs len]
  have rowsK: "rows K = d * (?lst - ?sh)" using si(1) rows2 by (simp add: KK rows_def)
  have "sorted (row_columns K rw) \<and> (\<forall>col \<in> set (row_columns K rw). rw + d * ?sh \<le> col)"
    if "rw < rows K" for rw
  proof -
    have rw: "rw < rows K2" using that rowsK rows2 by simp
    have "row_columns K rw = sort (row_columns K2 rw)" unfolding KK by (rule si(2)[OF rw])
    then show ?thesis using r(4) rw rows2 by simp
  qed
  then show ?thesis using rowsK by blast
qed

subsection \<open>The triplets of the elasticity assembly\<close>

lemma lower_update:
  "lower_triangular ts \<Longrightarrow> col \<le> row \<Longrightarrow> lower_triangular (ts[k := (row, col, v)])"
  unfolding lower_triangular_def using set_update_subset_insert[of ts k "(row, col, v)"] by auto

lemma filler_lower:
  "lower_triangular (fst st) \<Longrightarrow> lower_triangular (fst (filler inodes row col el v st))"
  by (cases st) (auto simp: filler_def lower_update)

lemma all_components_preserves:
  assumes "\<And>projection form st. P st \<Longrightarrow> P (rule projection form st)" and "P st"
  shows "P (all_components rule st)"
  unfolding all_components_def by (intro assms(1) assms(2))

lemma mesh_run_loc_preserves:
  assumes "\<And>i j el st. P st \<Longrightarrow> P (rule i j el st)" and "P st"
  shows "P (mesh_run_loc mesh rule st)"
proof -
  have a: "P (fold (\<lambda>j. rule i j el) js s)" if "P s" for i el js s
    using that by (rule fold_preserves[where P = P]) (rule assms(1))
  have b: "P (fold (\<lambda>i. fold (\<lambda>j. rule i j el) js) ns s)" if "P s" for el js ns s
    using that by (rule fold_preserves[where P = P]) (rule a)
  show ?thesis unfolding mesh_run_loc_def
    using assms(2) by (rule fold_preserves[where P = P]) (rule b)
qed

lemma mesh_run_nonloc_preserves:
  assumes "\<And>iL jNL elL elNL st. P st \<Longrightarrow> P (rule iL jNL elL elNL st)" and "P st"
  shows "P (mesh_run_nonloc mesh rule st)"
proof -
  have a: "P (fold (\<lambda>jNL. rule iL jNL elL elNL) js s)" if "P s" for iL elL elNL js s
    using that by (rule fold_preserves[where P = P]) (rule assms(1))
  have b: "P (fold (\<lambda>iL. fold (\<lambda>jNL. rule iL jNL elL elNL) js) ns s)" if "P s" for elL elNL js ns s
    using that by (rule fold_preserves[where P = P]) (rule a)
  have c: "P (fold (\<lambda>elNL. fold (\<lambda>iL. fold (\<lambda>jNL. rule iL jNL elL elNL) (js elNL)) ns) es s)"
    if "P s" for elL js ns es s
    using that by (rule fold_preserves[where P = P]) (rule b)
  show ?thesis unfolding mesh_run_nonloc_def
    using assms(2) by (rule fold_preserves[where P = P]) (rule c)
qed

lemma identity_rows_lower:
  "lower_triangular (fst st) \<Longrightarrow>
   lower_triangular (fst (fold (\<lambda>i (triplets, j).
        if \<not> inodes ! i then (triplets[j := (i, i, 1)], j + 1) else (triplets, j)) is st))"
  by (rule fold_preserves) (auto simp: split_beta lower_update)

lemma triplets_fill_lower:
  "lower_triangular (fst (triplets_fill mesh inodes weight_p1 rule_loc rule_nonloc))"
proof -
  define nl where "nl = (weight_p1 < 999 / 1000)"
  obtain sl sbl sn sbn where ma: "mesh_analysis mesh inodes nl = (sl, sbl, sn, sbn)"
    by (cases "mesh_analysis mesh inodes nl") auto
  define t0 where "t0 = replicate (if nl then last sn else last sl) (0 :: nat, 0 :: nat, 0 :: real)"
  define t1 where "t1 = fst (fold (\<lambda>i (triplets, j).
                    if \<not> inodes ! i then (triplets[j := (i, i, 1)], j + 1) else (triplets, j))
               [0..<length inodes] (t0, 0 :: nat))"
  define tb0 where "tb0 = replicate (if nl then last sbn else last sbl) (0 :: nat, 0 :: nat, 0 :: real)"
  define st2 where "st2 = mesh_run_loc mesh
                    (\<lambda>i j el. all_components (\<lambda>projection form.
                       filler inodes (2 * node_number mesh el i + projection)
                         (2 * node_number mesh el j + form) el
                         (weight_p1 * rule_loc projection form el i j)))
                    (t1, tb0, sl, sbl)"
  define st3 where "st3 = mesh_run_nonloc mesh
                           (\<lambda>iL jNL elL elNL. all_components (\<lambda>projection form.
                              filler inodes (2 * node_number mesh elL iL + projection)
                                (2 * node_number mesh elNL jNL + form) elL
                                ((1 - weight_p1) * rule_nonloc projection form elL elNL iL jNL)))
                           (fst st2, fst (snd st2), sn, sbn)"
  have "lower_triangular (fst (t0, 0 :: nat))" by (simp add: lower_triangular_def t0_def)
  then have t1: "lower_triangular t1" unfolding t1_def by (rule identity_rows_lower)
  have loc: "lower_triangular (fst st2)" unfolding st2_def
  proof (rule mesh_run_loc_preserves[where P = "\<lambda>st. lower_triangular (fst st)"])
    show "lower_triangular (fst (t1, tb0, sl, sbl))" using t1 by simp
  qed (rule all_components_preserves[where P = "\<lambda>st. lower_triangular (fst st)"], rule filler_lower)
  have nonloc: "lower_triangular (fst st3)" unfolding st3_def
  proof (rule mesh_run_nonloc_preserves[where P = "\<lambda>st. lower_triangular (fst st)"])
    show "lower_triangular (fst (fst st2, fst (snd st2), sn, sbn))" using loc by simp
  qed (rule all_components_preserves[where P = "\<lambda>st. lower_triangular (fst st)"], rule filler_lower)
  have "fst (triplets_fill mesh inodes weight_p1 rule_loc rule_nonloc) = (if nl then fst st3 else fst st2)"
    unfolding triplets_fill_def Let_def nl_def[symmetric] ma prod.case
      t0_def[symmetric] t1_def[symmetric] tb0_def[symmetric] st2_def[symmetric]
    by (cases st2) (simp add: st3_def split_beta)
  then show ?thesis using loc nonloc by simp
qed

subsection \<open>The stored triangle of the two assemblies\<close>

text \<open>
  On one triangle with all six degrees of freedom inner and the local weight 1, the second triplet
  that the elasticity assembly of \<open>static_analysis\<close> stores into \<open>K\<close> is the entry of row 1 and
  column 0: an entry left of the diagonal, which \<open>filler_loc\<close> keeps because its test is
  \<open>row >= col\<close>.
\<close>

theorem elasticity_stores_lower_triangle:
  "fst (triplets_fill one_triangle (replicate 6 True) 1 sample_rule_loc sample_rule_nonloc) ! 1
     = (1, 0, 7)"
  by code_simp

text \<open>
  Claim C6, amended. The inner matrix that the indexator builds (pass \<open>SHIFTS\<close>, \<open>prepare_memory\<close>,
  pass \<open>NONZERO\<close>, \<open>sort_indices\<close>) has one row for every degree of freedom of the nodes of the
  process; in every row the stored columns ascend, and every stored column is at or right of the
  diagonal (the row of the matrix is local, its global number is the row plus
  \<open>DoF * first_node\<close>). The elasticity assembly of \<open>static_analysis\<close> stores the other triangle:
  every triplet of \<open>K\<close> has its column at or left of its row.
\<close>

theorem stored_triangle_of_each_assembly:
  "rows (fst (create_matrix_portrait_2d d Theory proxy inodes))
     = d * (last_node proxy - first_node proxy)
   \<and> (\<forall>rw < d * (last_node proxy - first_node proxy).
        sorted (row_columns (fst (create_matrix_portrait_2d d Theory proxy inodes)) rw)
      \<and> (\<forall>col \<in> set (row_columns (fst (create_matrix_portrait_2d d Theory proxy inodes)) rw).
            rw + d * first_node proxy \<le> col))
   \<and> lower_triangular (fst (triplets_fill mesh flags weight_p1 rule_loc rule_nonloc))"
  using portrait_upper_sorted[OF refl, of d Theory proxy inodes]
    triplets_fill_lower[of mesh flags weight_p1 rule_loc rule_nonloc]
  by simp

theorem stored_triangle_of_each_assembly_witness:
  "rows (fst (create_matrix_portrait_2d 1 LOCAL one_triangle_proxy [True, True, True])) = 3
   \<and> row_columns (fst (create_matrix_portrait_2d 1 LOCAL one_triangle_proxy [True, True, True])) 1
       = [1, 2]
   \<and> sorted (row_columns (fst (create_matrix_portrait_2d 1 LOCAL one_triangle_proxy [True, True, True])) 1)
   \<and> list_all (\<lambda>col. 1 \<le> col)
       (row_columns (fst (create_matrix_portrait_2d 1 LOCAL one_triangle_proxy [True, True, True])) 1)
   \<and> lower_triangular
       (fst (triplets_fill one_triangle (replicate 6 True) 1 sample_rule_loc sample_rule_nonloc))"
proof -
  have nodes: "first_node one_triangle_proxy = 0" "last_node one_triangle_proxy = 3"
    by (simp_all add: one_triangle_proxy_def)
  have stored:
    "row_columns (fst (create_matrix_portrait_2d 1 LOCAL one_triangle_proxy [True, True, True])) 1
       = [1, 2]"
    by code_simp
  from stored_triangle_of_each_assembly[of 1 LOCAL one_triangle_proxy "[True, True, True]"
      one_triangle "replicate 6 True" 1 sample_rule_loc sample_rule_nonloc]
  have r: "rows (fst (create_matrix_portrait_2d 1 LOCAL one_triangle_proxy [True, True, True])) = 3"
    "\<forall>rw < 3.
        sorted (row_columns (fst (create_matrix_portrait_2d 1 LOCAL one_triangle_proxy [True, True, True])) rw)
      \<and> (\<forall>col \<in> set (row_columns (fst (create_matrix_portrait_2d 1 LOCAL one_triangle_proxy [True, True, True])) rw).
            rw \<le> col)"
    "lower_triangular
       (fst (triplets_fill one_triangle (replicate 6 True) 1 sample_rule_loc sample_rule_nonloc))"
    by (simp_all add: nodes)
  from r(2) have
    "sorted (row_columns (fst (create_matrix_portrait_2d 1 LOCAL one_triangle_proxy [True, True, True])) 1)
     \<and> list_all (\<lambda>col. 1 \<le> col)
         (row_columns (fst (create_matrix_portrait_2d 1 LOCAL one_triangle_proxy [True, True, True])) 1)"
    by (simp add: list_all_iff)
  with r(1,3) stored show ?thesis by blast
qed

end
